theory Spec2Isabelle
  imports Main
begin

section \<open>The multi-agent orchestrator of agentops\<close>

text \<open>
  A shallow embedding of \<^verbatim>\<open>agentops/orchestrator/agent_orchestrator.py\<close> and
  \<^verbatim>\<open>agentops/orchestrator/llm_decomposer.py\<close>. Python objects become records,
  exceptions become values of a sum type, the loops become recursive functions, and
  everything outside the two files (the agents, the language model, the clock, the
  memory sink) is a function of an explicit world state \<open>'s\<close>.
\<close>

subsection \<open>Strings\<close>

text \<open>
  \<^verbatim>\<open>str.lower()\<close>. A \<open>char\<close> is a byte, so the model lowers the ASCII letters
  \<open>A\<close> to \<open>Z\<close> and leaves every other byte as it is.
\<close>

definition lower_char :: "char \<Rightarrow> char" where
  "lower_char c =
     (case map_of (zip ''ABCDEFGHIJKLMNOPQRSTUVWXYZ'' ''abcdefghijklmnopqrstuvwxyz'') c of
        None \<Rightarrow> c
      | Some l \<Rightarrow> l)"

definition lower :: "string \<Rightarrow> string" where
  "lower s = map lower_char s"

text \<open>\<^verbatim>\<open>s.startswith(p)\<close> and the substring test \<^verbatim>\<open>p in s\<close>.\<close>

fun starts_with :: "string \<Rightarrow> string \<Rightarrow> bool" where
  "starts_with s [] = True"
| "starts_with [] (p # ps) = False"
| "starts_with (c # cs) (p # ps) = (c = p \<and> starts_with cs ps)"

fun is_in :: "string \<Rightarrow> string \<Rightarrow> bool" where
  "is_in p [] = (p = [])"
| "is_in p (c # cs) = (starts_with (c # cs) p \<or> is_in p cs)"

text \<open>\<^verbatim>\<open>str(n)\<close> for an integer: its decimal digits.\<close>

definition digit_char :: "nat \<Rightarrow> char" where
  "digit_char d = ''0123456789'' ! d"

fun str_nat :: "nat \<Rightarrow> string" where
  "str_nat n =
     (if n < 10 then [digit_char n] else str_nat (n div 10) @ [digit_char (n mod 10)])"

declare str_nat.simps [simp del]

definition str_int :: "int \<Rightarrow> string" where
  "str_int i = (if i < 0 then CHR ''-'' # str_nat (nat (- i)) else str_nat (nat i))"

text \<open>\<^verbatim>\<open>sep.join(parts)\<close>.\<close>

fun join :: "string \<Rightarrow> string list \<Rightarrow> string" where
  "join sep [] = []"
| "join sep [x] = x"
| "join sep (x # y # ys) = x @ sep @ join sep (y # ys)"

subsection \<open>AgentTask\<close>

text \<open>
  The status is one of the four strings the code ever assigns or compares with.
\<close>

datatype status = Pending | Running | Completed | Failed

record agent_task =
  task_id :: string
  description :: string
  agent_type :: string
  dependencies :: "string list"
  estimated_duration :: int
  status :: status
  result :: "string option"
  error :: "string option"
  assigned_agent :: "string option"
  started_at :: "string option"
  completed_at :: "string option"
  retry_count :: int
  max_retries :: int

text \<open>
  \<^verbatim>\<open>AgentTask.__init__\<close>; \<^verbatim>\<open>dependencies or []\<close> is the list itself, the two
  defaults (\<^verbatim>\<open>None\<close> for the dependencies, 3 for the duration) are written by the
  callers below.
\<close>

definition AgentTask :: "string \<Rightarrow> string \<Rightarrow> string \<Rightarrow> string list \<Rightarrow> int \<Rightarrow> agent_task" where
  "AgentTask tid desc ty deps dur =
     \<lparr> task_id = tid, description = desc, agent_type = ty, dependencies = deps,
       estimated_duration = dur, status = Pending, result = None, error = None,
       assigned_agent = None, started_at = None, completed_at = None,
       retry_count = 0, max_retries = 2 \<rparr>"

text \<open>\<^verbatim>\<open>AgentTask.to_dict\<close>: every field but \<^verbatim>\<open>max_retries\<close>.\<close>

record task_dict =
  td_task_id :: string
  td_description :: string
  td_agent_type :: string
  td_dependencies :: "string list"
  td_estimated_duration :: int
  td_status :: status
  td_result :: "string option"
  td_error :: "string option"
  td_assigned_agent :: "string option"
  td_started_at :: "string option"
  td_completed_at :: "string option"
  td_retry_count :: int

definition to_dict :: "agent_task \<Rightarrow> task_dict" where
  "to_dict t =
     \<lparr> td_task_id = task_id t, td_description = description t,
       td_agent_type = agent_type t, td_dependencies = dependencies t,
       td_estimated_duration = estimated_duration t, td_status = status t,
       td_result = result t, td_error = error t, td_assigned_agent = assigned_agent t,
       td_started_at = started_at t, td_completed_at = completed_at t,
       td_retry_count = retry_count t \<rparr>"

subsection \<open>The world outside the orchestrator\<close>

text \<open>
  What \<^verbatim>\<open>await agent.execute(description)\<close> does: it returns a result object or
  it raises an \<^verbatim>\<open>Exception\<close>, recorded by its \<^verbatim>\<open>str(e)\<close>. Of a result object
  the code reads \<^verbatim>\<open>result.output if hasattr(result, 'output') else str(result)\<close>
  and nothing else; that gives a text, or raises in its turn (an \<^verbatim>\<open>output\<close>
  property or a \<^verbatim>\<open>__str__\<close> that raises). The reading follows the call with only
  an assignment to the task in between, so what it does to the world is part of what
  the call does to it. A call that never returns, and what is raised past
  \<^verbatim>\<open>except Exception\<close> (a cancellation), are outside the model.
\<close>

datatype agent_result = Text string | Unreadable string

datatype outcome = Returns agent_result | Raises string

text \<open>
  What \<^verbatim>\<open>self.memory.store(key, task.result, level="working")\<close> does inside the
  \<^verbatim>\<open>try\<close> of \<^verbatim>\<open>execute_task\<close>: it returns or it raises an \<^verbatim>\<open>Exception\<close>.
\<close>

datatype sink_reply = Stored | Sink_raises string

text \<open>Python exceptions the orchestrator's own code raises.\<close>

datatype py_error = IndexError | KeyError string | TypeError

text \<open>
  What \<^verbatim>\<open>LLMTaskDecomposer.decompose\<close> gets from the language model. Between the
  call and \<^verbatim>\<open>json.loads\<close> everything is library code inside one \<^verbatim>\<open>try\<close>;
  it ends either in an exception (the call failed, the reply had no text, the text was
  no JSON) or in a parsed document. The orchestrator iterates over the document and
  subscripts each item with three keys and \<^verbatim>\<open>get\<close>s two more, so a document is
  recorded as the items the iteration yields, each a JSON object (with the five fields
  it may or may not have, at the types \<^verbatim>\<open>AgentTask\<close> declares) or something that
  is no object; or as not iterable at all.
\<close>

record subtask_dict =
  d_task_id :: "string option"
  d_description :: "string option"
  d_agent_type :: "string option"
  d_dependencies :: "string list option"
  d_estimated_duration :: "int option"

datatype json_item = Dict subtask_dict | Not_dict

datatype llm_document = Doc_items "json_item list" | Doc_not_iterable

datatype llm_reply = Llm_raised string | Llm_json llm_document

text \<open>
  The environment. An agent \<open>'a\<close> executes a description in a world \<open>'s\<close>, and
  has a truth value there (\<^verbatim>\<open>if not agent\<close>: an object is false when its class
  defines \<^verbatim>\<open>__bool__\<close> or \<^verbatim>\<open>__len__\<close> and that returns \<^verbatim>\<open>False\<close> or 0).
  The language model answers a task and a list of agent types. \<^verbatim>\<open>datetime.now()\<close>
  reads the clock (as its \<^verbatim>\<open>isoformat()\<close>). The memory sink stores a value under
  a key, or a fact; it is never read. The store of a task's result is made inside the
  \<^verbatim>\<open>try\<close> of \<^verbatim>\<open>execute_task\<close>, whose handler decides what an exception of the
  sink leads to, so \<open>store_result\<close> may raise. The stores of \<^verbatim>\<open>register_agent\<close>
  and \<^verbatim>\<open>coordinate\<close> stand under no handler: of them the model keeps the key and
  the fact's text and takes it that they return, as it does of the clock. Each function
  but the truth value may change the world.
\<close>

record ('a, 's) env =
  agent_execute :: "'a \<Rightarrow> string \<Rightarrow> 's \<Rightarrow> outcome \<times> 's"
  agent_true :: "'a \<Rightarrow> 's \<Rightarrow> bool"
  llm_create :: "string \<Rightarrow> string list \<Rightarrow> 's \<Rightarrow> llm_reply \<times> 's"
  now :: "'s \<Rightarrow> string \<times> 's"
  store_result :: "string \<Rightarrow> string \<Rightarrow> 's \<Rightarrow> sink_reply \<times> 's"
  memory_store :: "string \<Rightarrow> 's \<Rightarrow> 's"
  memory_store_fact :: "string \<Rightarrow> 's \<Rightarrow> 's"

subsection \<open>AgentOrchestrator\<close>

text \<open>
  \<^verbatim>\<open>coordinate\<close>'s result dictionary, without \<^verbatim>\<open>duration_seconds\<close> (a float).
\<close>

record orchestration_result =
  res_orchestrator_id :: string
  res_task :: string
  res_subtasks :: "task_dict list"
  total_subtasks :: nat
  completed :: nat
  failed :: nat
  success :: bool
  final_output :: string
  res_started_at :: string
  res_completed_at :: string

text \<open>
  The orchestrator object. \<^verbatim>\<open>agents\<close> is a Python dict: an association list in
  insertion order, looked up with \<open>map_of\<close>. Of \<^verbatim>\<open>memory\<close> and
  \<^verbatim>\<open>decomposer\<close> the orchestrator's own code reads the truth value only
  (\<^verbatim>\<open>if self.memory\<close>, \<^verbatim>\<open>self.use_llm and self.decomposer\<close>), and that is what
  the two fields record.
\<close>

record 'a orchestrator =
  orchestrator_id :: string
  agents :: "(string \<times> 'a) list"
  memory :: bool
  execution_history :: "orchestration_result list"
  use_llm :: bool
  decomposer :: bool

text \<open>\<^verbatim>\<open>register_agent\<close>: \<^verbatim>\<open>self.agents[agent_type] = agent_instance\<close>.\<close>

fun dict_set :: "(string \<times> 'a) list \<Rightarrow> string \<Rightarrow> 'a \<Rightarrow> (string \<times> 'a) list" where
  "dict_set [] k v = [(k, v)]"
| "dict_set ((k', v') # kvs) k v =
     (if k' = k then (k, v) # kvs else (k', v') # dict_set kvs k v)"

definition register_agent ::
  "('a, 's) env \<Rightarrow> 'a orchestrator \<Rightarrow> string \<Rightarrow> 'a \<Rightarrow> 's \<Rightarrow> 'a orchestrator \<times> 's" where
  "register_agent env orch ty agent_instance w =
     (orch\<lparr>agents := dict_set (agents orch) ty agent_instance\<rparr>,
      if memory orch then memory_store env (''agent_'' @ ty @ ''_registered'') w else w)"

subsection \<open>execute\_task\<close>

text \<open>
  The function returns the task, the world after it, and a trace of what it did in
  order: each assignment to \<^verbatim>\<open>task.status\<close>, each call of the agent, each
  \<^verbatim>\<open>asyncio.sleep(1)\<close>. The trace is an observation only; nothing reads it.
\<close>

datatype event = Status_set status | Agent_called | Slept

text \<open>
  The body of the \<^verbatim>\<open>try\<close>, for one pass of the loop. It ends in the
  \<^verbatim>\<open>return task\<close>, or in the handler with the exception's text; either way with
  the task and the world as the statements that ran have left them. The call of the
  agent, the reading of its result and the store to the memory sink can each raise,
  the last two after \<^verbatim>\<open>completed\<close> has been assigned.
\<close>

datatype 's try_end =
    Returned agent_task 's "event list"
  | Caught string agent_task 's "event list"

definition try_body ::
  "('a, 's) env \<Rightarrow> 'a orchestrator \<Rightarrow> 'a \<Rightarrow> agent_task \<Rightarrow> 's \<Rightarrow> 's try_end" where
  "try_body env orch agent task w =
     (case agent_execute env agent (description task) w of
        (Raises e, w1) \<Rightarrow> Caught e task w1 [Agent_called]
      | (Returns res, w1) \<Rightarrow>
          (let task1 = task\<lparr>status := Completed\<rparr> in
           case res of
             Unreadable e \<Rightarrow> Caught e task1 w1 [Agent_called, Status_set Completed]
           | Text out \<Rightarrow>
               (let task2 = task1\<lparr>result := Some out\<rparr>;
                    (t, w2) = now env w1;
                    task3 = task2\<lparr>completed_at := Some t\<rparr>
                in if memory orch then
                     (case store_result env (''task_'' @ task_id task3 @ ''_result'') out w2 of
                        (Stored, w3) \<Rightarrow>
                          Returned task3 w3 [Agent_called, Status_set Completed]
                      | (Sink_raises e, w3) \<Rightarrow>
                          Caught e task3 w3 [Agent_called, Status_set Completed])
                   else Returned task3 w2 [Agent_called, Status_set Completed])))"

text \<open>
  The \<^verbatim>\<open>while task.retry_count <= task.max_retries\<close> loop with the handler of the
  \<^verbatim>\<open>try\<close>. After the last failure the handler assigns \<^verbatim>\<open>failed\<close> and control
  goes back to the loop test, which is false then.
\<close>

function retry_loop ::
  "('a, 's) env \<Rightarrow> 'a orchestrator \<Rightarrow> 'a \<Rightarrow> agent_task \<Rightarrow> 's \<Rightarrow> agent_task \<times> 's \<times> event list" where
  "retry_loop env orch agent task w =
     (if retry_count task \<le> max_retries task then
        (case try_body env orch agent task w of
           Returned task1 w1 evs \<Rightarrow> (task1, w1, evs)
         | Caught e task0 w1 evs \<Rightarrow>
             (let task1 = task0\<lparr>retry_count := retry_count task0 + 1\<rparr> in
              if retry_count task1 > max_retries task1 then
                (let task2 = task1\<lparr>status := Failed,
                       error := Some (''Failed after '' @ str_int (max_retries task1)
                                        @ '' retries: '' @ e)\<rparr>;
                     (t, w2) = now env w1;
                     task3 = task2\<lparr>completed_at := Some t\<rparr>;
                     (task4, w3, evs') = retry_loop env orch agent task3 w2
                 in (task4, w3, evs @ Status_set Failed # evs'))
              else
                (let (task4, w3, evs') = retry_loop env orch agent task1 w1
                 in (task4, w3, evs @ Slept # evs'))))
      else (task, w, []))"
  by pat_completeness auto
termination
  by (relation "measure (\<lambda>(env, orch, agent, task, w). nat (max_retries task + 1 - retry_count task))")
     (auto simp: try_body_def Let_def
           split: prod.splits outcome.splits agent_result.splits sink_reply.splits if_splits)

declare retry_loop.simps [simp del]

text \<open>
  \<^verbatim>\<open>execute_task\<close>. \<^verbatim>\<open>self.agents.get(task.agent_type)\<close> is \<^verbatim>\<open>None\<close> for a
  type that is not registered, and the branch of \<^verbatim>\<open>if not agent\<close> is taken for
  \<^verbatim>\<open>None\<close> and for every registered agent that is false; \<open>no_agent\<close> is that
  branch.
\<close>

definition no_agent :: "agent_task \<Rightarrow> 's \<Rightarrow> agent_task \<times> 's \<times> event list" where
  "no_agent task w =
     (task\<lparr>status := Failed,
           error := Some (''No agent registered for type: '' @ agent_type task)\<rparr>,
      w, [Status_set Failed])"

definition execute_task ::
  "('a, 's) env \<Rightarrow> 'a orchestrator \<Rightarrow> agent_task \<Rightarrow> 's \<Rightarrow> agent_task \<times> 's \<times> event list" where
  "execute_task env orch task w =
     (case map_of (agents orch) (agent_type task) of
        None \<Rightarrow> no_agent task w
      | Some agent \<Rightarrow>
          if \<not> agent_true env agent w then no_agent task w
          else
            (let (t, w1) = now env w;
                 task1 = task\<lparr>status := Running, started_at := Some t,
                              assigned_agent := Some (agent_type task)\<rparr>;
                 (task2, w2, evs) = retry_loop env orch agent task1 w1
             in (task2, w2, Status_set Running # evs)))"

definition status_writes :: "event list \<Rightarrow> status list" where
  "status_writes evs = concat (map (\<lambda>e. case e of Status_set s \<Rightarrow> [s] | _ \<Rightarrow> []) evs)"

definition agent_calls :: "event list \<Rightarrow> nat" where
  "agent_calls evs = length (filter (\<lambda>e. e = Agent_called) evs)"

text \<open>
  The outcome of the \<open>n\<close>-th of the calls that the retry loop makes one after the
  other, the first of them in world \<open>w\<close>, and whether that call raises.
\<close>

fun nth_call :: "('a, 's) env \<Rightarrow> 'a \<Rightarrow> string \<Rightarrow> 's \<Rightarrow> nat \<Rightarrow> outcome \<times> 's" where
  "nth_call env a d w 0 = agent_execute env a d w"
| "nth_call env a d w (Suc n) = nth_call env a d (snd (agent_execute env a d w)) n"

definition raises_at :: "('a, 's) env \<Rightarrow> 'a \<Rightarrow> string \<Rightarrow> 's \<Rightarrow> nat \<Rightarrow> bool" where
  "raises_at env a d w n =
     (case fst (nth_call env a d w n) of Raises e \<Rightarrow> True | Returns out \<Rightarrow> False)"

subsection \<open>get\_ready\_tasks\<close>

text \<open>
  The task list is the store of the run: \<^verbatim>\<open>coordinate\<close> owns it, and
  \<^verbatim>\<open>execute_task\<close> mutates its objects in place. A reference to a task object is
  modelled by the object's position in the list, and every function that is handed
  the list returns it, as it has left it.

  \<^verbatim>\<open>next((t for t in tasks if t.task_id == dep_id), None)\<close> is \<open>find\<close>: the first
  task with that identifier. \<open>deps_met\<close> is the inner \<^verbatim>\<open>for\<close> loop with its
  \<^verbatim>\<open>break\<close>.
\<close>

fun deps_met :: "agent_task list \<Rightarrow> string list \<Rightarrow> bool" where
  "deps_met tasks [] = True"
| "deps_met tasks (dep_id # rest) =
     (case find (\<lambda>t. task_id t = dep_id) tasks of
        None \<Rightarrow> False
      | Some dep_task \<Rightarrow> if status dep_task \<noteq> Completed then False else deps_met tasks rest)"

fun ready_loop :: "agent_task list \<Rightarrow> nat list \<Rightarrow> nat list \<Rightarrow> nat list \<times> agent_task list" where
  "ready_loop tasks [] ready = (ready, tasks)"
| "ready_loop tasks (i # rest) ready =
     (let task = tasks ! i in
      if status task \<noteq> Pending then ready_loop tasks rest ready
      else if deps_met tasks (dependencies task) then ready_loop tasks rest (ready @ [i])
      else ready_loop tasks rest ready)"

definition get_ready_tasks :: "agent_task list \<Rightarrow> nat list \<times> agent_task list" where
  "get_ready_tasks tasks = ready_loop tasks [0..<length tasks] []"

text \<open>The task objects that the returned references stand for.\<close>

definition ready_tasks :: "agent_task list \<Rightarrow> agent_task list" where
  "ready_tasks tasks = map (\<lambda>i. tasks ! i) (fst (get_ready_tasks tasks))"

subsection \<open>coordinate\<close>

text \<open>
  \<^verbatim>\<open>await asyncio.gather(*[self.execute_task(task) for task in ready_tasks])\<close>.
  The coroutines run interleaved, each writing to its own task only. The model runs
  them one after the other in list order. That loses nothing for the tasks: the agents
  and the world are arbitrary, so whatever outcomes the calls of one task meet in some
  interleaving, they meet in some world of the model.
\<close>

fun gather ::
  "('a, 's) env \<Rightarrow> 'a orchestrator \<Rightarrow> nat list \<Rightarrow> agent_task list \<Rightarrow> 's \<Rightarrow> agent_task list \<times> 's" where
  "gather env orch [] tasks w = (tasks, w)"
| "gather env orch (i # rest) tasks w =
     (let (task', w', evs) = execute_task env orch (tasks ! i) w
      in gather env orch rest (tasks[i := task']) w')"

definition max_iterations :: nat where
  "max_iterations = 50"

text \<open>
  How the \<^verbatim>\<open>while\<close> loop of \<^verbatim>\<open>coordinate\<close> was left: by its test with nothing
  pending, by its test with the iteration count at the cap, or by the \<^verbatim>\<open>break\<close>
  of the stall branch (the one that prints the warning). The loop returns the task
  list, the world, the ready sets of its iterations in order, and this.
\<close>

datatype loop_exit = All_dispatched | Cap_reached | Stalled

function coordinate_loop ::
  "('a, 's) env \<Rightarrow> 'a orchestrator \<Rightarrow> nat \<Rightarrow> agent_task list \<Rightarrow> 's \<Rightarrow>
     agent_task list \<times> 's \<times> nat list list \<times> loop_exit" where
  "coordinate_loop env orch iteration subtasks w =
     (if list_ex (\<lambda>t. status t = Pending) subtasks \<and> iteration < max_iterations then
        (let (ready, subtasks1) = get_ready_tasks subtasks in
         if ready = [] then (subtasks1, w, [[]], Stalled)
         else
           (let (subtasks2, w2) = gather env orch ready subtasks1 w;
                (subtasks3, w3, batches, how) =
                   coordinate_loop env orch (iteration + 1) subtasks2 w2
            in (subtasks3, w3, ready # batches, how)))
      else (subtasks, w, [],
            if list_ex (\<lambda>t. status t = Pending) subtasks then Cap_reached
            else All_dispatched))"
  by pat_completeness auto
termination
  by (relation "measure (\<lambda>(env, orch, iteration, subtasks, w). max_iterations - iteration)")
     auto

declare coordinate_loop.simps [simp del]

subsection \<open>Decomposition\<close>

text \<open>
  \<^verbatim>\<open>LLMTaskDecomposer._fallback_decompose\<close> and \<^verbatim>\<open>LLMTaskDecomposer.decompose\<close>:
  whatever is raised inside the \<^verbatim>\<open>try\<close> ends in the decomposer's own fallback, a
  single subtask.
\<close>

definition llm_fallback_decompose :: "string \<Rightarrow> string list \<Rightarrow> json_item list" where
  "llm_fallback_decompose task agent_types =
     [Dict \<lparr> d_task_id = Some ''task-1'', d_description = Some task,
             d_agent_type = Some (case agent_types of [] \<Rightarrow> ''general'' | a # _ \<Rightarrow> a),
             d_dependencies = Some [], d_estimated_duration = Some 3 \<rparr>]"

definition decompose ::
  "('a, 's) env \<Rightarrow> string \<Rightarrow> string list \<Rightarrow> 's \<Rightarrow> llm_document \<times> 's" where
  "decompose env complex_task available_agents w =
     (case llm_create env complex_task available_agents w of
        (Llm_raised e, w1) \<Rightarrow>
          (Doc_items (llm_fallback_decompose complex_task available_agents), w1)
      | (Llm_json doc, w1) \<Rightarrow> (doc, w1))"

text \<open>
  The list comprehension of \<^verbatim>\<open>decompose_task\<close>: \<^verbatim>\<open>st["task_id"]\<close>,
  \<^verbatim>\<open>st["description"]\<close> and \<^verbatim>\<open>st["agent_type"]\<close> raise on an item that is no
  object or lacks the key; \<^verbatim>\<open>st.get\<close> has defaults.
\<close>

fun task_of_item :: "json_item \<Rightarrow> py_error + agent_task" where
  "task_of_item Not_dict = Inl TypeError"
| "task_of_item (Dict st) =
     (case d_task_id st of
        None \<Rightarrow> Inl (KeyError ''task_id'')
      | Some tid \<Rightarrow>
          (case d_description st of
             None \<Rightarrow> Inl (KeyError ''description'')
           | Some desc \<Rightarrow>
               (case d_agent_type st of
                  None \<Rightarrow> Inl (KeyError ''agent_type'')
                | Some ty \<Rightarrow>
                    Inr (AgentTask tid desc ty
                           (case d_dependencies st of None \<Rightarrow> [] | Some deps \<Rightarrow> deps)
                           (case d_estimated_duration st of None \<Rightarrow> 3 | Some dur \<Rightarrow> dur)))))"

fun tasks_of_items :: "json_item list \<Rightarrow> py_error + agent_task list" where
  "tasks_of_items [] = Inr []"
| "tasks_of_items (st # rest) =
     (case task_of_item st of
        Inl e \<Rightarrow> Inl e
      | Inr t \<Rightarrow> (case tasks_of_items rest of Inl e \<Rightarrow> Inl e | Inr ts \<Rightarrow> Inr (t # ts)))"

fun tasks_of_document :: "llm_document \<Rightarrow> py_error + agent_task list" where
  "tasks_of_document Doc_not_iterable = Inl TypeError"
| "tasks_of_document (Doc_items items) = tasks_of_items items"

text \<open>
  \<^verbatim>\<open>AgentOrchestrator._fallback_decompose\<close>. \<^verbatim>\<open>agents[0]\<close> raises
  \<^verbatim>\<open>IndexError\<close> on an empty list; only the last of the four branches guards it.
  \<open>pick_agent\<close> is \<^verbatim>\<open>"x" if "x" in agents else agents[0]\<close>, \<open>prev_dep\<close> is
  \<^verbatim>\<open>[subtasks[-1].task_id] if subtasks else []\<close>.
\<close>

definition first_agent :: "string list \<Rightarrow> py_error + string" where
  "first_agent agent_types = (case agent_types of [] \<Rightarrow> Inl IndexError | a # _ \<Rightarrow> Inr a)"

definition pick_agent :: "string \<Rightarrow> string list \<Rightarrow> py_error + string" where
  "pick_agent preferred agent_types =
     (if preferred \<in> set agent_types then Inr preferred else first_agent agent_types)"

definition prev_dep :: "agent_task list \<Rightarrow> string list" where
  "prev_dep subtasks = (if subtasks \<noteq> [] then [task_id (last subtasks)] else [])"

definition research_step ::
  "string \<Rightarrow> string \<Rightarrow> string list \<Rightarrow> agent_task list \<Rightarrow> py_error + agent_task list" where
  "research_step task task_lower agent_types subtasks =
     (if is_in ''research'' task_lower \<or> is_in ''find'' task_lower then
        (case pick_agent ''research'' agent_types of
           Inl e \<Rightarrow> Inl e
         | Inr ty \<Rightarrow> Inr (subtasks @ [AgentTask ''task-1'' (''Research: '' @ task) ty [] 3]))
      else Inr subtasks)"

definition analyze_step ::
  "string \<Rightarrow> string \<Rightarrow> string list \<Rightarrow> agent_task list \<Rightarrow> py_error + agent_task list" where
  "analyze_step task task_lower agent_types subtasks =
     (if is_in ''analyze'' task_lower then
        (case pick_agent ''analysis'' agent_types of
           Inl e \<Rightarrow> Inl e
         | Inr ty \<Rightarrow>
             Inr (subtasks @ [AgentTask (''task-'' @ str_nat (length subtasks + 1))
                                ''Analyze findings'' ty (prev_dep subtasks) 3]))
      else Inr subtasks)"

definition write_step ::
  "string \<Rightarrow> string \<Rightarrow> string list \<Rightarrow> agent_task list \<Rightarrow> py_error + agent_task list" where
  "write_step task task_lower agent_types subtasks =
     (if is_in ''write'' task_lower \<or> is_in ''report'' task_lower then
        (case pick_agent ''writing'' agent_types of
           Inl e \<Rightarrow> Inl e
         | Inr ty \<Rightarrow>
             Inr (subtasks @ [AgentTask (''task-'' @ str_nat (length subtasks + 1))
                                ''Write report'' ty (prev_dep subtasks) 3]))
      else Inr subtasks)"

definition default_step :: "string \<Rightarrow> string list \<Rightarrow> agent_task list \<Rightarrow> agent_task list" where
  "default_step task agent_types subtasks =
     (if subtasks = [] then
        subtasks @ [AgentTask ''task-1'' task
                      (case agent_types of [] \<Rightarrow> ''general'' | a # _ \<Rightarrow> a) [] 3]
      else subtasks)"

definition fallback_decompose :: "string \<Rightarrow> string list \<Rightarrow> py_error + agent_task list" where
  "fallback_decompose task agent_types =
     (let task_lower = lower task in
      case research_step task task_lower agent_types [] of
        Inl e \<Rightarrow> Inl e
      | Inr subtasks1 \<Rightarrow>
          (case analyze_step task task_lower agent_types subtasks1 of
             Inl e \<Rightarrow> Inl e
           | Inr subtasks2 \<Rightarrow>
               (case write_step task task_lower agent_types subtasks2 of
                  Inl e \<Rightarrow> Inl e
                | Inr subtasks3 \<Rightarrow> Inr (default_step task agent_types subtasks3))))"

text \<open>
  \<^verbatim>\<open>decompose_task\<close>: an exception of the decomposer or of the list comprehension
  is caught and ends in the keyword fallback, whose own exception is not caught.
\<close>

definition decompose_task ::
  "('a, 's) env \<Rightarrow> 'a orchestrator \<Rightarrow> string \<Rightarrow> 's \<Rightarrow> (py_error + agent_task list) \<times> 's" where
  "decompose_task env orch task w =
     (let available_agents = map fst (agents orch) in
      if use_llm orch \<and> decomposer orch then
        (let (subtask_dicts, w1) = decompose env task available_agents w in
         case tasks_of_document subtask_dicts of
           Inr subtasks \<Rightarrow> (Inr subtasks, w1)
         | Inl e \<Rightarrow> (fallback_decompose task available_agents, w1))
      else (fallback_decompose task available_agents, w))"

text \<open>
  \<^verbatim>\<open>coordinate\<close>. The \<^verbatim>\<open>print\<close>s are left out. The result is the exception that
  reached the caller or the result dictionary, with the orchestrator (its history
  appended to) and the world.
\<close>

definition render_completed :: "agent_task \<Rightarrow> string" where
  "render_completed t =
     task_id t @ '' ('' @ agent_type t @ ''):'' @ [CHR 0x0A]
       @ (case result t of None \<Rightarrow> ''None'' | Some r \<Rightarrow> r)"

definition coordinate ::
  "('a, 's) env \<Rightarrow> 'a orchestrator \<Rightarrow> string \<Rightarrow> 's \<Rightarrow>
     (py_error + orchestration_result) \<times> 'a orchestrator \<times> 's" where
  "coordinate env orch complex_task w =
     (let (start_time, w0) = now env w in
      case decompose_task env orch complex_task w0 of
        (Inl e, w1) \<Rightarrow> (Inl e, orch, w1)
      | (Inr subtasks, w1) \<Rightarrow>
          (let w2 = (if memory orch
                     then memory_store env ''subtasks''
                            (memory_store env ''orchestration_task'' w1)
                     else w1);
               (subtasks', w3, batches, how) = coordinate_loop env orch 0 subtasks w2;
               completed_tasks = filter (\<lambda>t. status t = Completed) subtasks';
               failed_tasks = filter (\<lambda>t. status t = Failed) subtasks';
               output = join [CHR 0x0A, CHR 0x0A] (map render_completed completed_tasks);
               (end_time, w4) = now env w3;
               ok = (length completed_tasks = length subtasks');
               res = \<lparr> res_orchestrator_id = orchestrator_id orch,
                       res_task = complex_task,
                       res_subtasks = map to_dict subtasks',
                       total_subtasks = length subtasks',
                       completed = length completed_tasks,
                       failed = length failed_tasks,
                       success = ok,
                       final_output = output,
                       res_started_at = start_time,
                       res_completed_at = end_time \<rparr>;
               w5 = (if memory orch \<and> ok
                     then memory_store_fact env (''Successfully orchestrated: '' @ complex_task) w4
                     else w4)
           in (Inr res, orch\<lparr>execution_history := execution_history orch @ [res]\<rparr>, w5)))"

text \<open>\<^verbatim>\<open>get_history\<close>.\<close>

definition get_history :: "'a orchestrator \<Rightarrow> orchestration_result list" where
  "get_history orch = execution_history orch"

text \<open>
  The ready sets and the way out of the loop of the run that \<^verbatim>\<open>coordinate\<close>
  makes: the same steps up to the loop, and what the loop reports.
\<close>

definition coordinate_trace ::
  "('a, 's) env \<Rightarrow> 'a orchestrator \<Rightarrow> string \<Rightarrow> 's \<Rightarrow> (nat list list \<times> loop_exit) option" where
  "coordinate_trace env orch complex_task w =
     (let (start_time, w0) = now env w in
      case decompose_task env orch complex_task w0 of
        (Inl e, w1) \<Rightarrow> None
      | (Inr subtasks, w1) \<Rightarrow>
          (let w2 = (if memory orch
                     then memory_store env ''subtasks''
                            (memory_store env ''orchestration_task'' w1)
                     else w1);
               (subtasks', w3, batches, how) = coordinate_loop env orch 0 subtasks w2
           in Some (batches, how)))"

subsection \<open>Properties of subtask lists\<close>

text \<open>
  The ready set as the specification words it: the pending subtasks each of whose
  prerequisite identifiers is the identifier of some completed subtask of the list.
\<close>

definition ready_spec :: "agent_task list \<Rightarrow> agent_task list" where
  "ready_spec tasks =
     filter (\<lambda>t. status t = Pending \<and>
                  (\<forall>d \<in> set (dependencies t).
                      \<exists>u \<in> set tasks. task_id u = d \<and> status u = Completed)) tasks"

text \<open>
  The ready set as the code computes it: a prerequisite identifier stands for the first
  subtask of the list that carries it.
\<close>

definition first_completed :: "agent_task list \<Rightarrow> string \<Rightarrow> bool" where
  "first_completed tasks d =
     (case find (\<lambda>t. task_id t = d) tasks of None \<Rightarrow> False | Some u \<Rightarrow> status u = Completed)"

definition is_ready :: "agent_task list \<Rightarrow> agent_task \<Rightarrow> bool" where
  "is_ready tasks t =
     (status t = Pending \<and> (\<forall>d \<in> set (dependencies t). first_completed tasks d))"

text \<open>
  A dependency graph is acyclic when its identifiers can be ranked so that every
  prerequisite ranks below its dependent; its prerequisites are resolvable when each is
  the identifier of a subtask of the list.
\<close>

definition acyclic_deps :: "agent_task list \<Rightarrow> bool" where
  "acyclic_deps tasks =
     (\<exists>rank :: string \<Rightarrow> nat.
        \<forall>t \<in> set tasks. \<forall>d \<in> set (dependencies t). rank d < rank (task_id t))"

definition resolvable :: "agent_task list \<Rightarrow> bool" where
  "resolvable tasks =
     (\<forall>t \<in> set tasks. \<forall>d \<in> set (dependencies t). d \<in> task_id ` set tasks)"

text \<open>
  Two assumptions on the environment under which the \<^verbatim>\<open>try\<close> of
  \<^verbatim>\<open>execute_task\<close> is left for its handler by the agent's own exceptions only:
  reading a result of the agent never raises, and the memory sink takes every result.
\<close>

definition result_readable :: "('a, 's) env \<Rightarrow> 'a \<Rightarrow> bool" where
  "result_readable env agent =
     (\<forall>d w e. fst (agent_execute env agent d w) \<noteq> Returns (Unreadable e))"

definition sink_accepts :: "('a, 's) env \<Rightarrow> bool" where
  "sink_accepts env = (\<forall>key val w. fst (store_result env key val w) = Stored)"

text \<open>A task object as its constructor leaves it.\<close>

definition newly_built :: "agent_task \<Rightarrow> bool" where
  "newly_built t =
     (t = AgentTask (task_id t) (description t) (agent_type t) (dependencies t)
            (estimated_duration t))"

subsection \<open>Concrete agents and worlds\<close>

text \<open>
  Four agents for concrete runs. The world is the number of agent calls made so far:
  one agent always returns, one always raises, one raises while fewer than \<open>k\<close> calls
  have been made; their results are plain texts. The fourth, \<open>Empty_pool\<close>, is an
  object that is false (a pool of workers with none in it, whose class defines
  \<^verbatim>\<open>__len__\<close>) and always raises; the other three are true, as every object is
  whose class defines neither \<^verbatim>\<open>__bool__\<close> nor \<^verbatim>\<open>__len__\<close>. The clock always
  reads \<^verbatim>\<open>T\<close>, the language model gives a fixed reply, the memory sink keeps
  nothing and does not raise.
\<close>

datatype demo_agent = Succeeds | Always_fails | Fails_first nat | Empty_pool

definition demo_execute :: "demo_agent \<Rightarrow> string \<Rightarrow> nat \<Rightarrow> outcome \<times> nat" where
  "demo_execute a d n =
     (case a of
        Succeeds \<Rightarrow> (Returns (Text (''done: '' @ d)), Suc n)
      | Always_fails \<Rightarrow> (Raises ''boom'', Suc n)
      | Fails_first k \<Rightarrow>
          (if n < k then Raises ''boom'' else Returns (Text (''done: '' @ d)), Suc n)
      | Empty_pool \<Rightarrow> (Raises ''no worker in the pool'', Suc n))"

definition demo_true :: "demo_agent \<Rightarrow> nat \<Rightarrow> bool" where
  "demo_true a n = (case a of Empty_pool \<Rightarrow> False | _ \<Rightarrow> True)"

definition demo_env :: "llm_reply \<Rightarrow> (demo_agent, nat) env" where
  "demo_env reply =
     \<lparr> agent_execute = demo_execute,
       agent_true = demo_true,
       llm_create = (\<lambda>task agent_types n. (reply, n)),
       now = (\<lambda>n. (''T'', n)),
       store_result = (\<lambda>key val n. (Stored, n)),
       memory_store = (\<lambda>key n. n),
       memory_store_fact = (\<lambda>fact n. n) \<rparr>"

definition demo_orch :: "(string \<times> demo_agent) list \<Rightarrow> bool \<Rightarrow> demo_agent orchestrator" where
  "demo_orch registry with_llm =
     \<lparr> orchestrator_id = ''orchestrator-1'', agents = registry, memory = False,
       execution_history = [], use_llm = with_llm, decomposer = with_llm \<rparr>"

text \<open>
  An orchestrator with a memory sink attached, and a world in which the sink raises on
  every store of a result.
\<close>

definition with_memory :: "'a orchestrator \<Rightarrow> 'a orchestrator" where
  "with_memory orch = orch\<lparr>memory := True\<rparr>"

definition full_sink_env :: "llm_reply \<Rightarrow> (demo_agent, nat) env" where
  "full_sink_env reply =
     (demo_env reply)\<lparr>store_result := (\<lambda>key val n. (Sink_raises ''disk full'', n))\<rparr>"

definition offline :: llm_reply where
  "offline = Llm_raised ''connection refused''"

text \<open>
  The diamond of \<^verbatim>\<open>test_complex_orchestration.py\<close> once \<^verbatim>\<open>task-a\<close> has
  completed, and a list in which two subtasks carry the same identifier, the first of
  them failed and the second completed.
\<close>

definition diamond :: "agent_task list" where
  "diamond =
     [(AgentTask ''task-a'' ''Add 10 and 5'' ''calculator'' [] 3)
        \<lparr>status := Completed, result := Some ''15''\<rparr>,
      AgentTask ''task-b'' ''Multiply the previous result by 2'' ''calculator'' [''task-a''] 3,
      AgentTask ''task-c'' ''Add 100 to the first result'' ''calculator'' [''task-a''] 3,
      AgentTask ''task-d'' ''Sum all previous results'' ''calculator'' [''task-b'', ''task-c''] 3]"

definition same_id_twice :: "agent_task list" where
  "same_id_twice =
     [(AgentTask ''x'' ''first try'' ''general'' [] 3)\<lparr>status := Failed\<rparr>,
      (AgentTask ''x'' ''second try'' ''general'' [] 3)\<lparr>status := Completed\<rparr>,
      AgentTask ''y'' ''use the result'' ''general'' [''x''] 3]"

subsection \<open>Notions for the proofs about a run\<close>

text \<open>The references that \<^verbatim>\<open>get_ready_tasks\<close> returns, written as a filter.\<close>

definition ready_refs :: "agent_task list \<Rightarrow> nat list" where
  "ready_refs tasks = filter (\<lambda>i. is_ready tasks (tasks ! i)) [0..<length tasks]"

text \<open>A task \<open>t'\<close> is what \<^verbatim>\<open>execute_task\<close> makes of \<open>t\<close> in some world.\<close>

definition executed :: "('a, 's) env \<Rightarrow> 'a orchestrator \<Rightarrow> agent_task \<Rightarrow> agent_task \<Rightarrow> bool" where
  "executed env orch t t' = (\<exists>w. t' = fst (execute_task env orch t w))"

text \<open>Every task is completed, failed, or pending with retries left.\<close>

definition good :: "agent_task list \<Rightarrow> bool" where
  "good tasks =
     (\<forall>t \<in> set tasks. status t = Completed \<or> status t = Failed \<or>
        (status t = Pending \<and> retry_count t \<le> max_retries t))"

text \<open>The positions of the pending tasks.\<close>

definition pending_refs :: "agent_task list \<Rightarrow> nat set" where
  "pending_refs tasks = {i. i < length tasks \<and> status (tasks ! i) = Pending}"

text \<open>A pending task one of whose prerequisite identifiers no task of the list carries.\<close>

definition blocked :: "agent_task list \<Rightarrow> nat \<Rightarrow> bool" where
  "blocked tasks i =
     (i < length tasks \<and> status (tasks ! i) = Pending \<and>
      (\<exists>p \<in> set (dependencies (tasks ! i)). p \<notin> task_id ` set tasks))"

text \<open>One batch: every ready task is executed, every other task is left as it is.\<close>

definition advances :: "('a, 's) env \<Rightarrow> 'a orchestrator \<Rightarrow> agent_task list \<Rightarrow> agent_task list \<Rightarrow> bool" where
  "advances env orch tasks tasks2 =
     (length tasks2 = length tasks \<and>
      (\<forall>i < length tasks.
          (is_ready tasks (tasks ! i) \<longrightarrow> executed env orch (tasks ! i) (tasks2 ! i)) \<and>
          (\<not> is_ready tasks (tasks ! i) \<longrightarrow> tasks2 ! i = tasks ! i)))"

text \<open>The world in which the loop of \<^verbatim>\<open>coordinate\<close> starts, after the two writes to the memory sink.\<close>

definition run_world :: "('a, 's) env \<Rightarrow> 'a orchestrator \<Rightarrow> 's \<Rightarrow> 's" where
  "run_world env orch w1 =
     (if memory orch
      then memory_store env ''subtasks'' (memory_store env ''orchestration_task'' w1)
      else w1)"

text \<open>
  What a caller reads off the value of \<^verbatim>\<open>coordinate\<close>: the statuses of the
  subtask snapshots and the success flag, if a result was returned.
\<close>

definition run_statuses ::
  "(py_error + orchestration_result) \<times> 'a orchestrator \<times> 's \<Rightarrow> status list option" where
  "run_statuses r =
     (case fst r of Inl e \<Rightarrow> None | Inr res \<Rightarrow> Some (map td_status (res_subtasks res)))"

definition run_success ::
  "(py_error + orchestration_result) \<times> 'a orchestrator \<times> 's \<Rightarrow> bool option" where
  "run_success r = (case fst r of Inl e \<Rightarrow> None | Inr res \<Rightarrow> Some (success res))"

text \<open>
  What the keyword fallback makes of the task \<^verbatim>\<open>research and report\<close> when the
  agent types \<^verbatim>\<open>research\<close> and \<^verbatim>\<open>writing\<close> are registered.
\<close>

definition research_report_tasks :: "agent_task list" where
  "research_report_tasks =
     [AgentTask ''task-1'' ''Research: research and report'' ''research'' [] 3,
      AgentTask ''task-2'' ''Write report'' ''writing'' [''task-1''] 3]"

text \<open>
  A reply of the language model with 51 subtasks: a chain of 50 steps, each depending
  on the one before it, and a last subtask whose only prerequisite, \<^verbatim>\<open>missing\<close>,
  is the identifier of none of them. The identifiers of the steps are \<^verbatim>\<open>step\<close>,
  \<^verbatim>\<open>step+\<close>, \<^verbatim>\<open>step++\<close> and so on. \<open>long_chain_tasks\<close> is what
  \<^verbatim>\<open>decompose_task\<close> builds from the reply, and \<open>chain_at k\<close> describes the task
  list of the run with its first \<open>k\<close> steps completed and everything else pending.
\<close>

definition step_id :: "nat \<Rightarrow> string" where
  "step_id k = ''step'' @ replicate k (CHR ''+'')"

definition step_deps :: "nat \<Rightarrow> string list" where
  "step_deps k = (if k = 0 then [] else [step_id (k - 1)])"

definition chain_item :: "nat \<Rightarrow> json_item" where
  "chain_item k =
     Dict \<lparr> d_task_id = Some (step_id k), d_description = Some ''next step'',
            d_agent_type = Some ''general'', d_dependencies = Some (step_deps k),
            d_estimated_duration = None \<rparr>"

definition last_item :: json_item where
  "last_item =
     Dict \<lparr> d_task_id = Some ''last'', d_description = Some ''wrap up'',
            d_agent_type = Some ''general'', d_dependencies = Some [''missing''],
            d_estimated_duration = None \<rparr>"

definition long_chain_doc :: llm_document where
  "long_chain_doc = Doc_items (map chain_item [0..<50] @ [last_item])"

definition chain_task :: "nat \<Rightarrow> agent_task" where
  "chain_task k = AgentTask (step_id k) ''next step'' ''general'' (step_deps k) 3"

definition last_task :: agent_task where
  "last_task = AgentTask ''last'' ''wrap up'' ''general'' [''missing''] 3"

definition long_chain_tasks :: "agent_task list" where
  "long_chain_tasks = map chain_task [0..<50] @ [last_task]"

definition chain_at :: "nat \<Rightarrow> agent_task list \<Rightarrow> bool" where
  "chain_at k tasks =
     (length tasks = 51 \<and>
      (\<forall>j < 50. task_id (tasks ! j) = step_id j \<and> dependencies (tasks ! j) = step_deps j \<and>
         (if j < k then status (tasks ! j) = Completed
          else status (tasks ! j) = Pending \<and> agent_type (tasks ! j) = ''general'' \<and>
               retry_count (tasks ! j) \<le> max_retries (tasks ! j))) \<and>
      task_id (tasks ! 50) = ''last'' \<and> dependencies (tasks ! 50) = [''missing''] \<and>
      status (tasks ! 50) = Pending)"

text \<open>
  A reply with two subtasks, the second of which names a prerequisite \<^verbatim>\<open>task-0\<close>
  that does not exist, and what \<^verbatim>\<open>decompose_task\<close> builds from it.
\<close>

definition ghost_doc :: llm_document where
  "ghost_doc =
     Doc_items
       [Dict \<lparr> d_task_id = Some ''task-1'', d_description = Some ''Collect the figures'',
               d_agent_type = Some ''general'', d_dependencies = Some [],
               d_estimated_duration = Some 2 \<rparr>,
        Dict \<lparr> d_task_id = Some ''task-2'', d_description = Some ''Summarise the figures'',
               d_agent_type = Some ''general'', d_dependencies = Some [''task-0''],
               d_estimated_duration = None \<rparr>]"

definition ghost_tasks :: "agent_task list" where
  "ghost_tasks =
     [AgentTask ''task-1'' ''Collect the figures'' ''general'' [] 2,
      AgentTask ''task-2'' ''Summarise the figures'' ''general'' [''task-0''] 3]"

section \<open>Proofs\<close>

subsection \<open>The body of the try\<close>

lemma try_body_raises:
  "agent_execute env agent (description task) w = (Raises e, w1) \<Longrightarrow>
     try_body env orch agent task w = Caught e task w1 [Agent_called]"
  by (simp add: try_body_def)

lemma try_body_unreadable:
  "agent_execute env agent (description task) w = (Returns (Unreadable e), w1) \<Longrightarrow>
     try_body env orch agent task w =
       Caught e (task\<lparr>status := Completed\<rparr>) w1 [Agent_called, Status_set Completed]"
  by (simp add: try_body_def)

lemma try_body_text:
  assumes "agent_execute env agent (description task) w = (Returns (Text out), w1)"
      and "now env w1 = (t, w2)"
  shows "try_body env orch agent task w =
     (if memory orch then
        (case store_result env (''task_'' @ task_id task @ ''_result'') out w2 of
           (Stored, w3) \<Rightarrow>
             Returned (task\<lparr>status := Completed, result := Some out, completed_at := Some t\<rparr>)
               w3 [Agent_called, Status_set Completed]
         | (Sink_raises e, w3) \<Rightarrow>
             Caught e (task\<lparr>status := Completed, result := Some out, completed_at := Some t\<rparr>)
               w3 [Agent_called, Status_set Completed])
      else Returned (task\<lparr>status := Completed, result := Some out, completed_at := Some t\<rparr>)
             w2 [Agent_called, Status_set Completed])"
  using assms by (simp add: try_body_def Let_def)

lemma try_body_returned:
  assumes "try_body env orch agent task w = Returned task1 w1 evs"
  shows "\<exists>out t. task1 = task\<lparr>status := Completed, result := Some out, completed_at := Some t\<rparr>"
    and "evs = [Agent_called, Status_set Completed]"
    and "\<exists>out w'. agent_execute env agent (description task) w = (Returns (Text out), w')"
  using assms
  by (auto simp: try_body_def Let_def
           split: prod.splits outcome.splits agent_result.splits sink_reply.splits if_splits)

lemma try_body_caught:
  assumes "try_body env orch agent task w = Caught e task0 w1 evs"
  shows "(task0 = task \<and> evs = [Agent_called]) \<or>
         (task0 = task\<lparr>status := Completed\<rparr> \<and> evs = [Agent_called, Status_set Completed]) \<or>
         (\<exists>out t. task0 = task\<lparr>status := Completed, result := Some out, completed_at := Some t\<rparr>
                   \<and> evs = [Agent_called, Status_set Completed])"
  using assms
  by (auto simp: try_body_def Let_def
           split: prod.splits outcome.splits agent_result.splits sink_reply.splits if_splits)

lemma try_body_caught_frame:
  assumes "try_body env orch agent task w = Caught e task0 w1 evs"
  shows "task_id task0 = task_id task" and "description task0 = description task"
    and "agent_type task0 = agent_type task" and "dependencies task0 = dependencies task"
    and "estimated_duration task0 = estimated_duration task"
    and "max_retries task0 = max_retries task" and "retry_count task0 = retry_count task"
    and "status task0 = status task \<or> status task0 = Completed"
    and "Pending \<notin> set (status_writes evs)"
    and "agent_calls evs = 1"
  using try_body_caught [OF assms] by (auto simp: status_writes_def agent_calls_def)

lemma try_body_returned_frame:
  assumes "try_body env orch agent task w = Returned task1 w1 evs"
  shows "task_id task1 = task_id task" and "description task1 = description task"
    and "agent_type task1 = agent_type task" and "dependencies task1 = dependencies task"
    and "estimated_duration task1 = estimated_duration task"
    and "max_retries task1 = max_retries task" and "retry_count task1 = retry_count task"
    and "status task1 = Completed"
    and "status_writes evs = [Completed]"
    and "agent_calls evs = 1"
  using try_body_returned [OF assms] by (auto simp: status_writes_def agent_calls_def)

text \<open>
  When reading a result never raises and the sink (if one is attached) takes every
  result, the handler is entered by an exception of the agent's call and by nothing
  else.
\<close>

lemma try_body_caught_clean:
  assumes "try_body env orch agent task w = Caught e task0 w1 evs"
      and "result_readable env agent" and "memory orch \<longrightarrow> sink_accepts env"
  shows "agent_execute env agent (description task) w = (Raises e, w1)"
    and "task0 = task" and "evs = [Agent_called]"
proof -
  obtain out w' where ex: "agent_execute env agent (description task) w = (out, w')"
    by (cases "agent_execute env agent (description task) w")
  have "agent_execute env agent (description task) w = (Raises e, w1) \<and> task0 = task \<and>
        evs = [Agent_called]"
  proof (cases out)
    case (Raises e')
    with ex assms(1) show ?thesis by (simp add: try_body_def)
  next
    case (Returns res)
    show ?thesis
    proof (cases res)
      case (Unreadable e')
      with ex Returns have "fst (agent_execute env agent (description task) w) = Returns (Unreadable e')"
        by simp
      with assms(2) show ?thesis by (simp add: result_readable_def)
    next
      case (Text res_text)
      obtain t w2 where n: "now env w' = (t, w2)" by (cases "now env w'")
      from ex Returns Text
      have ex': "agent_execute env agent (description task) w = (Returns (Text res_text), w')" by simp
      show ?thesis
      proof (cases "memory orch")
        case False
        with assms(1) show ?thesis by (simp add: try_body_text [OF ex' n])
      next
        case True
        with assms(3) have "fst (store_result env (''task_'' @ task_id task @ ''_result'') res_text w2) = Stored"
          by (simp add: sink_accepts_def)
        with True assms(1) show ?thesis
          by (simp add: try_body_text [OF ex' n] split: prod.splits sink_reply.splits)
      qed
    qed
  qed
  then show "agent_execute env agent (description task) w = (Raises e, w1)"
    and "task0 = task" and "evs = [Agent_called]"
    by simp_all
qed

subsection \<open>The retry loop, one step at a time\<close>

lemma retry_loop_done:
  "\<not> retry_count task \<le> max_retries task \<Longrightarrow> retry_loop env orch agent task w = (task, w, [])"
  by (simp add: retry_loop.simps [of env orch agent task w])

lemma retry_loop_returned:
  assumes "retry_count task \<le> max_retries task"
      and "try_body env orch agent task w = Returned task1 w1 evs"
  shows "retry_loop env orch agent task w = (task1, w1, evs)"
  using assms by (simp add: retry_loop.simps [of env orch agent task w])

lemma retry_loop_gave_up:
  assumes "retry_count task \<le> max_retries task"
      and "try_body env orch agent task w = Caught e task0 w1 evs"
      and "max_retries task < retry_count task + 1"
      and "now env w1 = (t, w2)"
  shows "retry_loop env orch agent task w =
           (task0\<lparr>retry_count := retry_count task + 1, status := Failed,
                  error := Some (''Failed after '' @ str_int (max_retries task) @ '' retries: '' @ e),
                  completed_at := Some t\<rparr>,
            w2, evs @ [Status_set Failed])"
  using assms try_body_caught_frame(6,7) [OF assms(2)]
  by (simp add: retry_loop.simps [of env orch agent task w] retry_loop_done)

lemma retry_loop_retry:
  assumes "retry_count task \<le> max_retries task"
      and "try_body env orch agent task w = Caught e task0 w1 evs"
      and "retry_count task + 1 \<le> max_retries task"
  shows "retry_loop env orch agent task w =
           (case retry_loop env orch agent (task0\<lparr>retry_count := retry_count task + 1\<rparr>) w1 of
              (task4, w3, evs') \<Rightarrow> (task4, w3, evs @ Slept # evs'))"
  using assms try_body_caught_frame(6,7) [OF assms(2)]
  by (simp add: retry_loop.simps [of env orch agent task w])

lemma retry_loop_cases_induct [consumes 0, case_names Done Returned Gave_up Retried]:
  assumes stop: "\<And>task w. \<not> retry_count task \<le> max_retries task \<Longrightarrow> P task w (task, w, [])"
      and returned: "\<And>task w task1 w1 evs.
             retry_count task \<le> max_retries task \<Longrightarrow>
             try_body env orch agent task w = Returned task1 w1 evs \<Longrightarrow>
             P task w (task1, w1, evs)"
      and gave_up: "\<And>task w e task0 w1 evs t w2.
             retry_count task \<le> max_retries task \<Longrightarrow>
             try_body env orch agent task w = Caught e task0 w1 evs \<Longrightarrow>
             max_retries task < retry_count task + 1 \<Longrightarrow>
             now env w1 = (t, w2) \<Longrightarrow>
             P task w (task0\<lparr>retry_count := retry_count task + 1, status := Failed,
                 error := Some (''Failed after '' @ str_int (max_retries task) @ '' retries: '' @ e),
                 completed_at := Some t\<rparr>, w2, evs @ [Status_set Failed])"
      and retried: "\<And>task w e task0 w1 evs task4 w3 evs'.
             retry_count task \<le> max_retries task \<Longrightarrow>
             try_body env orch agent task w = Caught e task0 w1 evs \<Longrightarrow>
             retry_count task + 1 \<le> max_retries task \<Longrightarrow>
             retry_loop env orch agent (task0\<lparr>retry_count := retry_count task + 1\<rparr>) w1
               = (task4, w3, evs') \<Longrightarrow>
             P (task0\<lparr>retry_count := retry_count task + 1\<rparr>) w1 (task4, w3, evs') \<Longrightarrow>
             P task w (task4, w3, evs @ Slept # evs')"
  shows "P task w (retry_loop env orch agent task w)"
proof (induction "nat (max_retries task + 1 - retry_count task)" arbitrary: task w rule: less_induct)
  case less
  show ?case
  proof (cases "retry_count task \<le> max_retries task")
    case False
    then show ?thesis by (simp add: retry_loop_done stop)
  next
    case True
    show ?thesis
    proof (cases "try_body env orch agent task w")
      case (Returned task1 w1 evs)
      show ?thesis
        unfolding retry_loop_returned [OF True Returned] by (rule returned [OF True Returned])
    next
      case (Caught e task0 w1 evs)
      show ?thesis
      proof (cases "retry_count task + 1 \<le> max_retries task")
        case False
        obtain t w2 where n: "now env w1 = (t, w2)" by (cases "now env w1")
        from False have lt: "max_retries task < retry_count task + 1" by simp
        show ?thesis
          unfolding retry_loop_gave_up [OF True Caught lt n] by (rule gave_up [OF True Caught lt n])
      next
        case again: True
        let ?t1 = "task0\<lparr>retry_count := retry_count task + 1\<rparr>"
        obtain task4 w3 evs' where r: "retry_loop env orch agent ?t1 w1 = (task4, w3, evs')"
          by (cases "retry_loop env orch agent ?t1 w1")
        have "nat (max_retries ?t1 + 1 - retry_count ?t1) < nat (max_retries task + 1 - retry_count task)"
          using True try_body_caught_frame(6) [OF Caught] by simp
        then have "P ?t1 w1 (retry_loop env orch agent ?t1 w1)" by (rule less.hyps)
        with r have IH: "P ?t1 w1 (task4, w3, evs')" by simp
        have "retry_loop env orch agent task w = (task4, w3, evs @ Slept # evs')"
          by (simp add: retry_loop_retry [OF True Caught again] r)
        with retried [OF True Caught again r IH] show ?thesis by simp
      qed
    qed
  qed
qed

lemma retry_loop_frame:
  "task_id (fst (retry_loop env orch agent task w)) = task_id task \<and>
   description (fst (retry_loop env orch agent task w)) = description task \<and>
   agent_type (fst (retry_loop env orch agent task w)) = agent_type task \<and>
   dependencies (fst (retry_loop env orch agent task w)) = dependencies task \<and>
   estimated_duration (fst (retry_loop env orch agent task w)) = estimated_duration task \<and>
   max_retries (fst (retry_loop env orch agent task w)) = max_retries task"
proof (induction task w rule: retry_loop_cases_induct [where env = env and orch = orch and agent = agent])
  case (Done task w)
  then show ?case by simp
next
  case (Returned task w task1 w1 evs)
  then show ?case by (simp add: try_body_returned_frame [OF Returned(2)])
next
  case (Gave_up task w e task0 w1 evs t w2)
  then show ?case by (simp add: try_body_caught_frame [OF Gave_up(2)])
next
  case (Retried task w e task0 w1 evs task4 w3 evs')
  then show ?case by (simp add: try_body_caught_frame [OF Retried(2)])
qed

lemma status_writes_append: "status_writes (xs @ ys) = status_writes xs @ status_writes ys"
  by (simp add: status_writes_def)

lemma agent_calls_append: "agent_calls (xs @ ys) = agent_calls xs + agent_calls ys"
  by (simp add: agent_calls_def)

lemma status_writes_Cons_status: "status_writes (Status_set s # evs) = s # status_writes evs"
  by (simp add: status_writes_def)

lemma status_writes_Cons_slept: "status_writes (Slept # evs) = status_writes evs"
  by (simp add: status_writes_def)

lemma agent_calls_Cons_status: "agent_calls (Status_set s # evs) = agent_calls evs"
  by (simp add: agent_calls_def)

lemma agent_calls_Cons_slept: "agent_calls (Slept # evs) = agent_calls evs"
  by (simp add: agent_calls_def)

text \<open>
  Whatever raises inside the \<^verbatim>\<open>try\<close>, a loop that is entered with a retry
  left ends with the task completed or failed, and never assigns \<^verbatim>\<open>pending\<close>.
\<close>

lemma retry_loop_status:
  "Pending \<notin> set (status_writes (snd (snd (retry_loop env orch agent task w)))) \<and>
   (if retry_count task \<le> max_retries task
    then status (fst (retry_loop env orch agent task w)) = Completed \<or>
         status (fst (retry_loop env orch agent task w)) = Failed
    else status (fst (retry_loop env orch agent task w)) = status task)"
proof (induction task w rule: retry_loop_cases_induct [where env = env and orch = orch and agent = agent])
  case (Done task w)
  then show ?case by (simp add: status_writes_def)
next
  case (Returned task w task1 w1 evs)
  then show ?case by (simp add: try_body_returned_frame [OF Returned(2)])
next
  case (Gave_up task w e task0 w1 evs t w2)
  then show ?case
    using try_body_caught_frame(9) [OF Gave_up(2)]
    by (simp add: status_writes_append status_writes_Cons_status) (simp add: status_writes_def)
next
  case (Retried task w e task0 w1 evs task4 w3 evs')
  then show ?case
    using try_body_caught_frame(6,7,9) [OF Retried(2)]
    by (simp add: status_writes_append status_writes_Cons_slept)
qed

subsection \<open>The retry loop when only the agent's call raises\<close>

lemma retry_loop_clean_induct [consumes 2, case_names Done Returned Gave_up Retried]:
  assumes readable: "result_readable env agent"
      and sink: "memory orch \<longrightarrow> sink_accepts env"
      and stop: "\<And>task w. \<not> retry_count task \<le> max_retries task \<Longrightarrow> P task w (task, w, [])"
      and returned: "\<And>task w out w1 task1 w3.
             retry_count task \<le> max_retries task \<Longrightarrow>
             agent_execute env agent (description task) w = (Returns (Text out), w1) \<Longrightarrow>
             status task1 = Completed \<Longrightarrow> retry_count task1 = retry_count task \<Longrightarrow>
             P task w (task1, w3, [Agent_called, Status_set Completed])"
      and gave_up: "\<And>task w e w1 t w2.
             retry_count task \<le> max_retries task \<Longrightarrow>
             agent_execute env agent (description task) w = (Raises e, w1) \<Longrightarrow>
             max_retries task < retry_count task + 1 \<Longrightarrow>
             now env w1 = (t, w2) \<Longrightarrow>
             P task w (task\<lparr>retry_count := retry_count task + 1, status := Failed,
                 error := Some (''Failed after '' @ str_int (max_retries task) @ '' retries: '' @ e),
                 completed_at := Some t\<rparr>, w2, [Agent_called, Status_set Failed])"
      and retried: "\<And>task w e w1 task4 w3 evs'.
             retry_count task \<le> max_retries task \<Longrightarrow>
             agent_execute env agent (description task) w = (Raises e, w1) \<Longrightarrow>
             retry_count task + 1 \<le> max_retries task \<Longrightarrow>
             retry_loop env orch agent (task\<lparr>retry_count := retry_count task + 1\<rparr>) w1
               = (task4, w3, evs') \<Longrightarrow>
             P (task\<lparr>retry_count := retry_count task + 1\<rparr>) w1 (task4, w3, evs') \<Longrightarrow>
             P task w (task4, w3, Agent_called # Slept # evs')"
  shows "P task w (retry_loop env orch agent task w)"
proof (induction task w rule: retry_loop_cases_induct [where env = env and orch = orch and agent = agent])
  case (Done task w)
  then show ?case by (rule stop)
next
  case (Returned task w task1 w1 evs)
  from try_body_returned(3) [OF Returned(2)] obtain out w'
    where ex: "agent_execute env agent (description task) w = (Returns (Text out), w')"
    by blast
  have "P task w (task1, w1, [Agent_called, Status_set Completed])"
    using Returned(1) ex try_body_returned_frame(8,7) [OF Returned(2)] by (rule returned)
  then show ?case by (simp add: try_body_returned(2) [OF Returned(2)])
next
  case (Gave_up task w e task0 w1 evs t w2)
  note c = try_body_caught_clean [OF Gave_up(2) readable sink]
  from gave_up [OF Gave_up(1) c(1) Gave_up(3,4)] show ?case by (simp add: c)
next
  case (Retried task w e task0 w1 evs task4 w3 evs')
  note c = try_body_caught_clean [OF Retried(2) readable sink]
  from Retried(4,5) have r: "retry_loop env orch agent (task\<lparr>retry_count := retry_count task + 1\<rparr>) w1
               = (task4, w3, evs')"
    and IH: "P (task\<lparr>retry_count := retry_count task + 1\<rparr>) w1 (task4, w3, evs')"
    by (simp_all add: c)
  from retried [OF Retried(1) c(1) Retried(3) r IH] show ?case by (simp add: c)
qed

lemma retry_loop_clean_writes:
  assumes "result_readable env agent" and "memory orch \<longrightarrow> sink_accepts env"
  shows "(if retry_count task \<le> max_retries task
    then (status (fst (retry_loop env orch agent task w)) = Completed \<and>
          status_writes (snd (snd (retry_loop env orch agent task w))) = [Completed]) \<or>
         (status (fst (retry_loop env orch agent task w)) = Failed \<and>
          status_writes (snd (snd (retry_loop env orch agent task w))) = [Failed])
    else status (fst (retry_loop env orch agent task w)) = status task \<and>
         status_writes (snd (snd (retry_loop env orch agent task w))) = [])"
  using assms
  by (induction task w rule: retry_loop_clean_induct [of env agent orch])
     (simp_all add: status_writes_def)

lemma raises_at_0:
  "raises_at env a d w 0 = (\<exists>e w1. agent_execute env a d w = (Raises e, w1))"
  by (cases "agent_execute env a d w") (auto simp: raises_at_def split: outcome.splits)

lemma raises_at_Suc:
  "agent_execute env a d w = (out, w1) \<Longrightarrow> raises_at env a d w (Suc n) = raises_at env a d w1 n"
  by (simp add: raises_at_def)

lemma retry_loop_all_fail:
  assumes "result_readable env agent" and "memory orch \<longrightarrow> sink_accepts env"
  shows "retry_count task \<le> max_retries task \<longrightarrow>
   (\<forall>k < nat (max_retries task + 1 - retry_count task). raises_at env agent (description task) w k) \<longrightarrow>
     status (fst (retry_loop env orch agent task w)) = Failed \<and>
     retry_count (fst (retry_loop env orch agent task w)) = max_retries task + 1 \<and>
     agent_calls (snd (snd (retry_loop env orch agent task w))) = nat (max_retries task + 1 - retry_count task)"
  using assms
proof (induction task w rule: retry_loop_clean_induct [of env agent orch])
  case (Done task w)
  then show ?case by simp
next
  case (Returned task w out w1 task1 w3)
  have "\<not> raises_at env agent (description task) w 0"
    using Returned(2) by (simp add: raises_at_0)
  moreover have "0 < nat (max_retries task + 1 - retry_count task)"
    using Returned(1) by simp
  ultimately show ?case by blast
next
  case (Gave_up task w e w1 t w2)
  then show ?case by (auto simp: agent_calls_def)
next
  case (Retried task w e w1 task3 w3 evs)
  have "\<forall>k < nat (max_retries task - retry_count task). raises_at env agent (description task) w1 k"
    if a: "\<forall>k < nat (max_retries task + 1 - retry_count task). raises_at env agent (description task) w k"
  proof (intro allI impI)
    fix k assume "k < nat (max_retries task - retry_count task)"
    then have "Suc k < nat (max_retries task + 1 - retry_count task)" by simp
    with a have "raises_at env agent (description task) w (Suc k)" by blast
    then show "raises_at env agent (description task) w1 k"
      by (simp add: raises_at_Suc [OF Retried(2)])
  qed
  with Retried show ?case by (auto simp: agent_calls_def)
qed

lemma retry_loop_then_success:
  assumes "result_readable env agent" and "memory orch \<longrightarrow> sink_accepts env"
  shows "\<forall>j. int j \<le> max_retries task - retry_count task \<longrightarrow>
        (\<forall>k < j. raises_at env agent (description task) w k) \<longrightarrow>
        \<not> raises_at env agent (description task) w j \<longrightarrow>
     status (fst (retry_loop env orch agent task w)) = Completed \<and>
     retry_count (fst (retry_loop env orch agent task w)) = retry_count task + int j \<and>
     agent_calls (snd (snd (retry_loop env orch agent task w))) = j + 1"
  using assms
proof (induction task w rule: retry_loop_clean_induct [of env agent orch])
  case (Done task w)
  then show ?case by simp
next
  case (Returned task w out w1 task1 w3)
  have "j = 0" if "\<forall>k < j. raises_at env agent (description task) w k" for j
  proof (rule ccontr)
    assume "j \<noteq> 0"
    with that have "raises_at env agent (description task) w 0" by simp
    with Returned(2) show False by (simp add: raises_at_0)
  qed
  with Returned(3,4) show ?case by (auto simp: agent_calls_def)
next
  case (Gave_up task w e w1 t w2)
  have "raises_at env agent (description task) w 0"
    using Gave_up(2) by (simp add: raises_at_0)
  moreover have "j = 0" if "int j \<le> max_retries task - retry_count task" for j
    using that Gave_up(1,3) by simp
  ultimately show ?case by auto
next
  case (Retried task w e w1 task3 w3 evs)
  show ?case
  proof (intro allI impI)
    fix j
    assume j: "int j \<le> max_retries task - retry_count task"
       and fails: "\<forall>k < j. raises_at env agent (description task) w k"
       and ok: "\<not> raises_at env agent (description task) w j"
    have r0: "raises_at env agent (description task) w 0"
      using Retried(2) by (simp add: raises_at_0)
    with ok obtain i where i: "j = Suc i" by (cases j) auto
    have "\<forall>k < i. raises_at env agent (description task) w1 k"
    proof (intro allI impI)
      fix k assume "k < i"
      with i fails have "raises_at env agent (description task) w (Suc k)" by simp
      then show "raises_at env agent (description task) w1 k"
        by (simp add: raises_at_Suc [OF Retried(2)])
    qed
    moreover have "\<not> raises_at env agent (description task) w1 i"
      using ok i by (simp add: raises_at_Suc [OF Retried(2)])
    moreover have "int i \<le> max_retries task - (retry_count task + 1)"
      using j i by simp
    ultimately have
      "status task3 = Completed \<and> retry_count task3 = retry_count task + 1 + int i \<and>
       agent_calls evs = i + 1"
      using Retried(5) by simp
    with i show "status (fst (task3, w3, Agent_called # Slept # evs)) = Completed \<and>
      retry_count (fst (task3, w3, Agent_called # Slept # evs)) = retry_count task + int j \<and>
      agent_calls (snd (snd (task3, w3, Agent_called # Slept # evs))) = j + 1"
      by (simp add: agent_calls_def)
  qed
qed


subsection \<open>execute\_task\<close>

lemma execute_task_unregistered:
  "map_of (agents orch) (agent_type task) = None \<Longrightarrow>
   execute_task env orch task w =
     (task\<lparr>status := Failed,
           error := Some (''No agent registered for type: '' @ agent_type task)\<rparr>,
      w, [Status_set Failed])"
  by (simp add: execute_task_def no_agent_def)

lemma execute_task_false_agent:
  "map_of (agents orch) (agent_type task) = Some agent \<Longrightarrow> \<not> agent_true env agent w \<Longrightarrow>
   execute_task env orch task w =
     (task\<lparr>status := Failed,
           error := Some (''No agent registered for type: '' @ agent_type task)\<rparr>,
      w, [Status_set Failed])"
  by (simp add: execute_task_def no_agent_def)

lemma execute_task_registered:
  assumes "map_of (agents orch) (agent_type task) = Some agent"
      and "agent_true env agent w"
      and "now env w = (t, w1)"
  shows "execute_task env orch task w =
     (fst (retry_loop env orch agent
             (task\<lparr>status := Running, started_at := Some t,
                   assigned_agent := Some (agent_type task)\<rparr>) w1),
      fst (snd (retry_loop env orch agent
             (task\<lparr>status := Running, started_at := Some t,
                   assigned_agent := Some (agent_type task)\<rparr>) w1)),
      Status_set Running # snd (snd (retry_loop env orch agent
             (task\<lparr>status := Running, started_at := Some t,
                   assigned_agent := Some (agent_type task)\<rparr>) w1)))"
  using assms by (simp add: execute_task_def split: prod.splits)

lemma all_less_two: "(\<forall>k<2. P k) \<longleftrightarrow> P 0 \<and> P (Suc 0)"
  by (auto simp: less_2_cases_iff)

lemma always_fails_raises: "raises_at (demo_env reply) Always_fails d w k"
  by (induction k arbitrary: w) (simp_all add: raises_at_def demo_env_def demo_execute_def)

lemma empty_pool_raises: "raises_at (demo_env reply) Empty_pool d w k"
  by (induction k arbitrary: w) (simp_all add: raises_at_def demo_env_def demo_execute_def)

text \<open>
  The retry accounting on the paths where the registered agent is a true object and
  nothing but its call raises. A subtask with \<^verbatim>\<open>max_retries = 2\<close> and a retry
  count of 0: if the agent raises on its first two calls and returns on the third,
  \<^verbatim>\<open>execute_task\<close> returns the task completed with a retry count of
  \<^verbatim>\<open>max_retries\<close>; if the agent raises on every call, it returns the task failed
  with a retry count of \<^verbatim>\<open>max_retries + 1\<close>, after exactly
  \<^verbatim>\<open>max_retries + 1\<close> calls of the agent. The calls start in the world \<open>w1\<close>
  that reading the clock for \<^verbatim>\<open>started_at\<close> leaves.
\<close>

lemma retry_accounting:
  assumes "map_of (agents orch) (agent_type task) = Some agent"
      and "agent_true env agent w"
      and "result_readable env agent" and "memory orch \<longrightarrow> sink_accepts env"
      and "max_retries task = 2" and "retry_count task = 0"
      and "now env w = (t, w1)"
  shows "((\<forall>k<2. raises_at env agent (description task) w1 k) \<and>
          \<not> raises_at env agent (description task) w1 2 \<longrightarrow>
            status (fst (execute_task env orch task w)) = Completed \<and>
            retry_count (fst (execute_task env orch task w)) = max_retries task \<and>
            agent_calls (snd (snd (execute_task env orch task w))) = 3) \<and>
         ((\<forall>k. raises_at env agent (description task) w1 k) \<longrightarrow>
            status (fst (execute_task env orch task w)) = Failed \<and>
            retry_count (fst (execute_task env orch task w)) = max_retries task + 1 \<and>
            agent_calls (snd (snd (execute_task env orch task w))) = nat (max_retries task + 1))"
proof -
  let ?t1 = "task\<lparr>status := Running, started_at := Some t,
                   assigned_agent := Some (agent_type task)\<rparr>"
  note ex = execute_task_registered [OF assms(1,2,7)]
  have then_ok: "status (fst (retry_loop env orch agent ?t1 w1)) = Completed \<and>
      retry_count (fst (retry_loop env orch agent ?t1 w1)) = 2 \<and>
      agent_calls (snd (snd (retry_loop env orch agent ?t1 w1))) = 3"
    if "\<forall>k<2. raises_at env agent (description task) w1 k"
       "\<not> raises_at env agent (description task) w1 2"
    using retry_loop_then_success [OF assms(3,4), of ?t1 w1, rule_format, of 2] that assms(5,6)
    by simp
  have all_fail: "status (fst (retry_loop env orch agent ?t1 w1)) = Failed \<and>
      retry_count (fst (retry_loop env orch agent ?t1 w1)) = 3 \<and>
      agent_calls (snd (snd (retry_loop env orch agent ?t1 w1))) = 3"
    if "\<forall>k. raises_at env agent (description task) w1 k"
    using retry_loop_all_fail [OF assms(3,4), of ?t1 w1] that assms(5,6)
    by simp
  show ?thesis
    using then_ok all_fail assms(5) by (simp add: ex agent_calls_Cons_status)
qed

text \<open>
  Claim C2 does not hold of the code: a registered agent that is a false object is
  never called. With \<open>Empty_pool\<close>, which raises when it is called, registered for
  \<^verbatim>\<open>general\<close> and a newly built subtask of that type, whose
  \<^verbatim>\<open>max_retries\<close> is 2, \<^verbatim>\<open>execute_task\<close> takes the
  branch of \<^verbatim>\<open>if not agent\<close>: it returns the subtask failed with the text
  \<^verbatim>\<open>No agent registered for type: general\<close>, a retry count of 0 and no call of the
  agent. The claim asks, for a registered worker that fails on every invocation, for a
  retry count of \<^verbatim>\<open>max_retries + 1\<close> after \<^verbatim>\<open>max_retries + 1\<close> invocations.
\<close>

theorem C2_registered_agent_never_called:
  "map_of (agents (demo_orch [(''general'', Empty_pool)] False)) ''general'' = Some Empty_pool \<and>
   max_retries (AgentTask ''task-1'' ''Process data batch'' ''general'' [] 3) = 2 \<and>
   fst (agent_execute (demo_env offline) Empty_pool ''Process data batch'' 0)
     = Raises ''no worker in the pool'' \<and>
   execute_task (demo_env offline) (demo_orch [(''general'', Empty_pool)] False)
       (AgentTask ''task-1'' ''Process data batch'' ''general'' [] 3) 0 =
     ((AgentTask ''task-1'' ''Process data batch'' ''general'' [] 3)
        \<lparr>status := Failed, error := Some ''No agent registered for type: general''\<rparr>,
      0, [Status_set Failed]) \<and>
   retry_count (fst (execute_task (demo_env offline) (demo_orch [(''general'', Empty_pool)] False)
       (AgentTask ''task-1'' ''Process data batch'' ''general'' [] 3) 0)) = 0 \<and>
   agent_calls (snd (snd (execute_task (demo_env offline)
       (demo_orch [(''general'', Empty_pool)] False)
       (AgentTask ''task-1'' ''Process data batch'' ''general'' [] 3) 0))) = 0"
  by (simp add: execute_task_def no_agent_def demo_orch_def demo_env_def demo_true_def
        demo_execute_def AgentTask_def agent_calls_def)

text \<open>
  A second path on which the retry accounting differs from the one above: the store to the
  memory sink stands inside the \<^verbatim>\<open>try\<close>, after \<^verbatim>\<open>completed\<close> has been
  assigned. With a sink that raises, an agent that raises twice and then returns leaves
  the task failed with a retry count of 3, and an agent that returns at once is called
  three times, the status being assigned \<^verbatim>\<open>completed\<close> after each call and
  \<^verbatim>\<open>failed\<close> at the end.
\<close>

lemma sink_failure_after_success:
  "status (fst (execute_task (full_sink_env offline)
       (with_memory (demo_orch [(''general'', Fails_first 2)] False))
       (AgentTask ''task-1'' ''Process data batch'' ''general'' [] 3) 0)) = Failed \<and>
   retry_count (fst (execute_task (full_sink_env offline)
       (with_memory (demo_orch [(''general'', Fails_first 2)] False))
       (AgentTask ''task-1'' ''Process data batch'' ''general'' [] 3) 0)) = 3 \<and>
   error (fst (execute_task (full_sink_env offline)
       (with_memory (demo_orch [(''general'', Fails_first 2)] False))
       (AgentTask ''task-1'' ''Process data batch'' ''general'' [] 3) 0))
     = Some ''Failed after 2 retries: disk full''"
  by (simp add: execute_task_def retry_loop.simps try_body_def full_sink_env_def with_memory_def
        demo_orch_def demo_env_def demo_true_def demo_execute_def AgentTask_def str_int_def
        str_nat.simps digit_char_def)

lemma sink_failure_status_writes:
  "snd (snd (execute_task (full_sink_env offline)
       (with_memory (demo_orch [(''general'', Succeeds)] False))
       (AgentTask ''task-1'' ''Process data batch'' ''general'' [] 3) 0)) =
     [Status_set Running,
      Agent_called, Status_set Completed, Slept,
      Agent_called, Status_set Completed, Slept,
      Agent_called, Status_set Completed, Status_set Failed]"
  by (simp add: execute_task_def retry_loop.simps try_body_def full_sink_env_def with_memory_def
        demo_orch_def demo_env_def demo_true_def demo_execute_def AgentTask_def)

text \<open>
  Claim C3, as the code has it. \<^verbatim>\<open>execute_task\<close> never assigns \<^verbatim>\<open>pending\<close>.
  For a task whose agent type is not registered it assigns \<^verbatim>\<open>failed\<close> and nothing
  else: the guard at the head of the function returns before \<^verbatim>\<open>running\<close> is ever
  assigned. For a task whose agent type is registered with an agent that is a true
  object, when reading the agent's results and the store to the memory sink do not
  raise (and the retry count is not above \<^verbatim>\<open>max_retries\<close> on entry), it assigns
  \<^verbatim>\<open>running\<close> and then, once, \<^verbatim>\<open>completed\<close> or \<^verbatim>\<open>failed\<close>, which is the
  status it returns.
\<close>

theorem C3_status_writes:
  "Pending \<notin> set (status_writes (snd (snd (execute_task env orch task w)))) \<and>
   (map_of (agents orch) (agent_type task) = None \<longrightarrow>
      status_writes (snd (snd (execute_task env orch task w))) = [Failed] \<and>
      status (fst (execute_task env orch task w)) = Failed) \<and>
   (\<forall>agent. map_of (agents orch) (agent_type task) = Some agent \<and> agent_true env agent w \<and>
        result_readable env agent \<and> (memory orch \<longrightarrow> sink_accepts env) \<and>
        retry_count task \<le> max_retries task \<longrightarrow>
      (status_writes (snd (snd (execute_task env orch task w))) = [Running, Completed] \<and>
       status (fst (execute_task env orch task w)) = Completed) \<or>
      (status_writes (snd (snd (execute_task env orch task w))) = [Running, Failed] \<and>
       status (fst (execute_task env orch task w)) = Failed))"
proof -
  have never_pending: "Pending \<notin> set (status_writes (snd (snd (execute_task env orch task w))))"
  proof (cases "map_of (agents orch) (agent_type task)")
    case None
    then show ?thesis by (simp add: execute_task_unregistered status_writes_def)
  next
    case (Some agent)
    show ?thesis
    proof (cases "agent_true env agent w")
      case False
      with Some show ?thesis by (simp add: execute_task_false_agent status_writes_def)
    next
      case True
      obtain t w1 where n: "now env w = (t, w1)" by (cases "now env w")
      show ?thesis
        using retry_loop_status [of env orch agent
          "task\<lparr>status := Running, started_at := Some t,
                 assigned_agent := Some (agent_type task)\<rparr>" w1]
        by (simp add: execute_task_registered [OF Some True n] status_writes_Cons_status)
    qed
  qed
  have unregistered: "status_writes (snd (snd (execute_task env orch task w))) = [Failed] \<and>
      status (fst (execute_task env orch task w)) = Failed"
    if "map_of (agents orch) (agent_type task) = None"
    using that by (simp add: execute_task_unregistered status_writes_def)
  have registered: "(status_writes (snd (snd (execute_task env orch task w))) = [Running, Completed] \<and>
       status (fst (execute_task env orch task w)) = Completed) \<or>
      (status_writes (snd (snd (execute_task env orch task w))) = [Running, Failed] \<and>
       status (fst (execute_task env orch task w)) = Failed)"
    if a: "map_of (agents orch) (agent_type task) = Some agent \<and> agent_true env agent w \<and>
        result_readable env agent \<and> (memory orch \<longrightarrow> sink_accepts env) \<and>
        retry_count task \<le> max_retries task" for agent
  proof -
    obtain t w1 where n: "now env w = (t, w1)" by (cases "now env w")
    let ?t1 = "task\<lparr>status := Running, started_at := Some t,
                     assigned_agent := Some (agent_type task)\<rparr>"
    from a have reg: "map_of (agents orch) (agent_type task) = Some agent"
    and tr: "agent_true env agent w"
    and rd: "result_readable env agent" and sk: "memory orch \<longrightarrow> sink_accepts env"
    and rc: "retry_count task \<le> max_retries task"
    by simp_all
    have "retry_count ?t1 \<le> max_retries ?t1" using rc by simp
    with retry_loop_clean_writes [OF rd sk, of ?t1 w1] show ?thesis
      by (auto simp: execute_task_registered [OF reg tr n] status_writes_Cons_status
               split: if_splits)
  qed
  from never_pending unregistered registered show ?thesis by blast
qed

lemma demo_env_clean:
  "result_readable (demo_env reply) a" "sink_accepts (demo_env reply)"
  by (simp_all add: result_readable_def sink_accepts_def demo_env_def demo_execute_def
        split: demo_agent.splits)

text \<open>
  C3 on a task of an unregistered type, on a registered agent that returns and on one
  that always raises.
\<close>

theorem C3_status_writes_witness:
  "status_writes (snd (snd (execute_task (demo_env offline) (demo_orch [] False)
       (AgentTask ''task-1'' ''Process data batch'' ''general'' [] 3) 0))) = [Failed] \<and>
   status_writes (snd (snd (execute_task (demo_env offline) (demo_orch [(''general'', Succeeds)] False)
       (AgentTask ''task-1'' ''Process data batch'' ''general'' [] 3) 0))) = [Running, Completed] \<and>
   status_writes (snd (snd (execute_task (demo_env offline) (demo_orch [(''general'', Always_fails)] False)
       (AgentTask ''task-1'' ''Process data batch'' ''general'' [] 3) 0))) = [Running, Failed]"
proof -
  let ?task = "AgentTask ''task-1'' ''Process data batch'' ''general'' [] 3"
  have a0: "map_of (agents (demo_orch [] False)) (agent_type ?task) = None"
    and a1: "map_of (agents (demo_orch [(''general'', Succeeds)] False)) (agent_type ?task) = Some Succeeds"
    and a2: "map_of (agents (demo_orch [(''general'', Always_fails)] False)) (agent_type ?task) = Some Always_fails"
    and m: "retry_count ?task \<le> max_retries ?task"
    by (simp_all add: demo_orch_def AgentTask_def)
  have tr: "agent_true (demo_env offline) Succeeds 0" "agent_true (demo_env offline) Always_fails 0"
    by (simp_all add: demo_env_def demo_true_def)
  have nm: "\<not> memory (demo_orch [(''general'', Succeeds)] False)"
           "\<not> memory (demo_orch [(''general'', Always_fails)] False)"
    by (simp_all add: demo_orch_def)
  have s1: "status (fst (execute_task (demo_env offline) (demo_orch [(''general'', Succeeds)] False) ?task 0)) = Completed"
    by (simp add: execute_task_def demo_orch_def AgentTask_def demo_env_def demo_true_def
          demo_execute_def retry_loop.simps try_body_def)
  have s2: "status (fst (execute_task (demo_env offline) (demo_orch [(''general'', Always_fails)] False) ?task 0)) = Failed"
    by (simp add: execute_task_def demo_orch_def AgentTask_def demo_env_def demo_true_def
          demo_execute_def retry_loop.simps try_body_def)
  show ?thesis
    using C3_status_writes [of "demo_env offline" "demo_orch [] False" ?task 0]
          C3_status_writes [of "demo_env offline" "demo_orch [(''general'', Succeeds)] False" ?task 0]
          C3_status_writes [of "demo_env offline" "demo_orch [(''general'', Always_fails)] False" ?task 0]
          a0 a1 a2 m tr nm s1 s2 demo_env_clean [of offline]
    by simp
qed

text \<open>
  Claim C3 as stated fails: a pending task whose agent type is not registered is set
  to \<^verbatim>\<open>failed\<close>, a terminal state, and was never set to \<^verbatim>\<open>running\<close>.
\<close>

theorem C3_terminal_without_running_counterexample:
  "status (AgentTask ''task-1'' ''Process data batch'' ''general'' [] 3) = Pending \<and>
   status_writes (snd (snd (execute_task (demo_env offline) (demo_orch [] False)
       (AgentTask ''task-1'' ''Process data batch'' ''general'' [] 3) 0))) = [Failed]"
  by (simp add: execute_task_def no_agent_def demo_orch_def AgentTask_def status_writes_def)

text \<open>
  Claim C6, as the code has it. For a task whose agent type is not registered,
  \<^verbatim>\<open>execute_task\<close> returns the task failed with the error text
  \<^verbatim>\<open>No agent registered for type: <type>\<close>; it calls no agent, does not sleep,
  leaves the retry count as it was (0 for a newly built task) and the world untouched.
\<close>

theorem C6_unregistered_fails_at_once:
  assumes "map_of (agents orch) (agent_type task) = None"
  shows "status (fst (execute_task env orch task w)) = Failed \<and>
         error (fst (execute_task env orch task w))
           = Some (''No agent registered for type: '' @ agent_type task) \<and>
         agent_calls (snd (snd (execute_task env orch task w))) = 0 \<and>
         Slept \<notin> set (snd (snd (execute_task env orch task w))) \<and>
         retry_count (fst (execute_task env orch task w)) = retry_count task \<and>
         fst (snd (execute_task env orch task w)) = w"
  by (simp add: execute_task_unregistered [OF assms] agent_calls_def)

text \<open>C6 on a newly built task of type \<^verbatim>\<open>general\<close> with only \<^verbatim>\<open>research\<close> registered.\<close>

theorem C6_unregistered_fails_at_once_witness:
  "status (fst (execute_task (demo_env offline) (demo_orch [(''research'', Succeeds)] False)
             (AgentTask ''task-1'' ''Process data batch'' ''general'' [] 3) 0)) = Failed \<and>
   error (fst (execute_task (demo_env offline) (demo_orch [(''research'', Succeeds)] False)
             (AgentTask ''task-1'' ''Process data batch'' ''general'' [] 3) 0))
     = Some ''No agent registered for type: general'' \<and>
   agent_calls (snd (snd (execute_task (demo_env offline) (demo_orch [(''research'', Succeeds)] False)
             (AgentTask ''task-1'' ''Process data batch'' ''general'' [] 3) 0))) = 0 \<and>
   retry_count (fst (execute_task (demo_env offline) (demo_orch [(''research'', Succeeds)] False)
             (AgentTask ''task-1'' ''Process data batch'' ''general'' [] 3) 0)) = 0"
proof -
  let ?task = "AgentTask ''task-1'' ''Process data batch'' ''general'' [] 3"
  have a: "map_of (agents (demo_orch [(''research'', Succeeds)] False)) (agent_type ?task) = None"
    by (simp add: demo_orch_def AgentTask_def)
  have "agent_type ?task = ''general''" "retry_count ?task = 0"
    by (simp_all add: AgentTask_def)
  with C6_unregistered_fails_at_once [OF a, of "demo_env offline" 0] show ?thesis
    by simp
qed

text \<open>
  Claim C6 as stated fails on the error text only: the code's message starts
  \<^verbatim>\<open>No agent registered\<close>, not \<^verbatim>\<open>no worker registered\<close>.
\<close>

theorem C6_error_text_counterexample:
  "error (fst (execute_task (demo_env offline) (demo_orch [] False)
             (AgentTask ''task-1'' ''Process data batch'' ''general'' [] 3) 0))
     = Some ''No agent registered for type: general'' \<and>
   error (fst (execute_task (demo_env offline) (demo_orch [] False)
             (AgentTask ''task-1'' ''Process data batch'' ''general'' [] 3) 0))
     \<noteq> Some ''no worker registered for type: general''"
  by (simp add: execute_task_def no_agent_def demo_orch_def AgentTask_def)

subsection \<open>get\_ready\_tasks\<close>

lemma deps_met_iff: "deps_met tasks ds \<longleftrightarrow> (\<forall>d \<in> set ds. first_completed tasks d)"
  by (induction ds) (auto simp: first_completed_def split: option.splits)

lemma ready_loop_eq:
  "ready_loop tasks refs ready = (ready @ filter (\<lambda>i. is_ready tasks (tasks ! i)) refs, tasks)"
  by (induction refs arbitrary: ready) (simp_all add: Let_def is_ready_def deps_met_iff)

lemma get_ready_tasks_eq:
  "get_ready_tasks tasks = (filter (\<lambda>i. is_ready tasks (tasks ! i)) [0..<length tasks], tasks)"
  by (simp add: get_ready_tasks_def ready_loop_eq)

lemma ready_tasks_eq: "ready_tasks tasks = filter (is_ready tasks) tasks"
proof -
  have "map (\<lambda>i. tasks ! i) (filter (is_ready tasks \<circ> (\<lambda>i. tasks ! i)) [0..<length tasks])
          = filter (is_ready tasks) (map (\<lambda>i. tasks ! i) [0..<length tasks])"
    by (simp add: filter_map)
  then show ?thesis
    by (simp add: ready_tasks_def get_ready_tasks_eq map_nth comp_def)
qed

lemma find_task_id:
  "find (\<lambda>t. task_id t = d) tasks = Some u \<Longrightarrow> u \<in> set tasks \<and> task_id u = d"
  by (induction tasks) (auto split: if_splits)

lemma find_task_id_None:
  "find (\<lambda>t. task_id t = d) tasks = None \<longleftrightarrow> d \<notin> task_id ` set tasks"
  by (induction tasks) auto

lemma distinct_ids_same:
  assumes "distinct (map task_id tasks)" "u \<in> set tasks" "v \<in> set tasks" "task_id u = task_id v"
  shows "u = v"
  using assms by (meson distinct_map inj_onD)

lemma first_completed_unique:
  assumes "distinct (map task_id tasks)"
  shows "first_completed tasks d \<longleftrightarrow> (\<exists>u \<in> set tasks. task_id u = d \<and> status u = Completed)"
proof (cases "find (\<lambda>t. task_id t = d) tasks")
  case None
  then have "\<not> first_completed tasks d" by (simp add: first_completed_def)
  moreover from None have "d \<notin> task_id ` set tasks" by (simp add: find_task_id_None)
  ultimately show ?thesis by auto
next
  case (Some u)
  from find_task_id [OF Some] have u_in: "u \<in> set tasks" and u_id: "task_id u = d"
    by blast+
  have uniq: "v = u" if "v \<in> set tasks" and "task_id v = d" for v
  proof (rule distinct_ids_same [OF assms that(1) u_in])
    show "task_id v = task_id u" unfolding that(2) u_id ..
  qed
  from Some have fc: "first_completed tasks d \<longleftrightarrow> status u = Completed"
    by (simp add: first_completed_def)
  show ?thesis
  proof
    assume "first_completed tasks d"
    with fc u_in u_id show "\<exists>u \<in> set tasks. task_id u = d \<and> status u = Completed"
      by blast
  next
    assume "\<exists>u \<in> set tasks. task_id u = d \<and> status u = Completed"
    then obtain v where "v \<in> set tasks" "task_id v = d" "status v = Completed" by blast
    with uniq [of v] have "status u = Completed" by blast
    with fc show "first_completed tasks d" by blast
  qed
qed

text \<open>
  Claim C7. For every list of subtasks, \<^verbatim>\<open>get_ready_tasks\<close> returns, in the
  order of the list, exactly the subtasks that are pending and each of whose
  prerequisite identifiers resolves to a subtask of the list that is completed. The
  code resolves an identifier to the first subtask of the list that carries it
  (\<open>first_completed\<close>); when the identifiers of the list are pairwise distinct, as
  the data model requires, there is no other subtask it could resolve to, and the
  result is the ready set in the specification's own words (\<open>ready_spec\<close>).
\<close>

theorem C7_ready_set:
  "fst (get_ready_tasks tasks) = filter (\<lambda>i. is_ready tasks (tasks ! i)) [0..<length tasks] \<and>
   ready_tasks tasks = filter (is_ready tasks) tasks \<and>
   (distinct (map task_id tasks) \<longrightarrow> ready_tasks tasks = ready_spec tasks)"
proof -
  have "ready_tasks tasks = ready_spec tasks" if "distinct (map task_id tasks)"
    unfolding ready_tasks_eq ready_spec_def
    by (rule filter_cong) (simp_all add: is_ready_def first_completed_unique [OF that])
  then show ?thesis by (simp add: get_ready_tasks_eq ready_tasks_eq)
qed

lemma diamond_ready: "filter (is_ready diamond) diamond = [diamond ! 1, diamond ! 2]"
  by (simp add: diamond_def is_ready_def first_completed_def AgentTask_def)

text \<open>C7 on the diamond with \<^verbatim>\<open>task-a\<close> completed: \<^verbatim>\<open>task-b\<close> and \<^verbatim>\<open>task-c\<close> are ready.\<close>

theorem C7_ready_set_witness:
  "distinct (map task_id diamond) \<and>
   ready_tasks diamond = [diamond ! 1, diamond ! 2] \<and>
   ready_spec diamond = [diamond ! 1, diamond ! 2]"
proof -
  have d: "distinct (map task_id diamond)" by (simp add: diamond_def AgentTask_def)
  note c = C7_ready_set [of diamond]
  note a = c [THEN conjunct2, THEN conjunct1]
  note b = c [THEN conjunct2, THEN conjunct2, THEN mp, OF d]
  from a have a': "ready_tasks diamond = [diamond ! 1, diamond ! 2]"
    by (simp only: diamond_ready)
  from a' b have b': "ready_spec diamond = [diamond ! 1, diamond ! 2]" by (simp only:)
  show ?thesis by (intro conjI d a' b')
qed

text \<open>
  What resolving to the first subtask means for a list that carries an identifier
  twice, against the data model: the first subtask named \<^verbatim>\<open>x\<close> has failed, so
  the dependent is not ready, although a later subtask named \<^verbatim>\<open>x\<close> is completed.
\<close>

lemma same_id_twice_not_ready:
  "ready_tasks same_id_twice = [] \<and> ready_spec same_id_twice = [same_id_twice ! 2]"
  by (simp add: ready_tasks_eq ready_spec_def same_id_twice_def is_ready_def
        first_completed_def AgentTask_def)

text \<open>
  Claim C10. \<^verbatim>\<open>get_ready_tasks\<close> hands the task list back as it got it: no
  field of any subtask is changed.
\<close>

theorem C10_ready_set_frame: "snd (get_ready_tasks tasks) = tasks"
  by (simp add: get_ready_tasks_eq)

subsection \<open>Decomposition\<close>

lemma str_nat_2: "str_nat (Suc (Suc 0)) = ''2''"
  by (simp add: str_nat.simps [of "Suc (Suc 0)"] digit_char_def)

lemma str_nat_3: "str_nat (Suc (Suc (Suc 0))) = ''3''"
  by (simp add: str_nat.simps [of "Suc (Suc (Suc 0))"] digit_char_def)

text \<open>
  Claim C9, as the code has it. With the agent types \<^verbatim>\<open>["research", "writing"]\<close>
  and a task text whose lowercased form contains \<^verbatim>\<open>research\<close> and
  \<^verbatim>\<open>report\<close> but not \<^verbatim>\<open>analyze\<close>, the keyword fallback returns exactly two
  subtasks: \<^verbatim>\<open>task-1\<close> for \<^verbatim>\<open>research\<close> with no dependencies and
  \<^verbatim>\<open>task-2\<close> for \<^verbatim>\<open>writing\<close> depending on \<^verbatim>\<open>task-1\<close>.
\<close>

theorem C9_fallback_research_report:
  assumes "is_in ''research'' (lower task)" and "is_in ''report'' (lower task)"
      and "\<not> is_in ''analyze'' (lower task)"
  shows "fallback_decompose task [''research'', ''writing''] =
           Inr [AgentTask ''task-1'' (''Research: '' @ task) ''research'' [] 3,
                AgentTask ''task-2'' ''Write report'' ''writing'' [''task-1''] 3]"
proof -
  have r: "research_step task (lower task) [''research'', ''writing''] [] =
             Inr [AgentTask ''task-1'' (''Research: '' @ task) ''research'' [] 3]"
    using assms(1) by (simp add: research_step_def pick_agent_def)
  have a: "analyze_step task (lower task) [''research'', ''writing''] subtasks = Inr subtasks"
    for subtasks
    using assms(3) by (simp add: analyze_step_def)
  have w: "write_step task (lower task) [''research'', ''writing'']
             [AgentTask ''task-1'' (''Research: '' @ task) ''research'' [] 3] =
           Inr [AgentTask ''task-1'' (''Research: '' @ task) ''research'' [] 3,
                AgentTask ''task-2'' ''Write report'' ''writing'' [''task-1''] 3]"
    using assms(2)
    by (simp add: write_step_def pick_agent_def prev_dep_def str_nat_2) (simp add: AgentTask_def)
  show ?thesis
    unfolding fallback_decompose_def Let_def r a w sum.case by (simp add: default_step_def)
qed

lemma lower_test_task: "lower ''Research AI trends and write a summary report'' = ''research ai trends and write a summary report''"
  by (simp add: lower_def lower_char_def)

text \<open>C9 on the task of \<^verbatim>\<open>test_production_orchestrator.py\<close>, without its analysis part.\<close>

theorem C9_fallback_research_report_witness:
  "fallback_decompose ''Research AI trends and write a summary report'' [''research'', ''writing''] =
     Inr [AgentTask ''task-1'' ''Research: Research AI trends and write a summary report'' ''research'' [] 3,
          AgentTask ''task-2'' ''Write report'' ''writing'' [''task-1''] 3]"
proof -
  let ?task = "''Research AI trends and write a summary report''"
  have "is_in ''research'' (lower ?task)" "is_in ''report'' (lower ?task)"
       "\<not> is_in ''analyze'' (lower ?task)"
    unfolding lower_test_task by simp_all
  from C9_fallback_research_report [OF this] show ?thesis by simp
qed

text \<open>
  Claim C9 as stated fails when the text itself does not contain \<^verbatim>\<open>analyze\<close>
  but its lowercased form does: the markers are looked for in the lowercased text, so
  \<^verbatim>\<open>Analyze\<close> counts and a third subtask is emitted.
\<close>

theorem C9_uppercase_marker_counterexample:
  "is_in ''research'' ''research, Analyze and report'' \<and>
   is_in ''report'' ''research, Analyze and report'' \<and>
   \<not> is_in ''analyze'' ''research, Analyze and report'' \<and>
   fallback_decompose ''research, Analyze and report'' [''research'', ''writing''] =
     Inr [AgentTask ''task-1'' ''Research: research, Analyze and report'' ''research'' [] 3,
          AgentTask ''task-2'' ''Analyze findings'' ''research'' [''task-1''] 3,
          AgentTask ''task-3'' ''Write report'' ''writing'' [''task-2''] 3]"
proof -
  have l: "lower ''research, Analyze and report'' = ''research, analyze and report''"
    by (simp add: lower_def lower_char_def)
  have "fallback_decompose ''research, Analyze and report'' [''research'', ''writing''] =
     Inr [AgentTask ''task-1'' ''Research: research, Analyze and report'' ''research'' [] 3,
          AgentTask ''task-2'' ''Analyze findings'' ''research'' [''task-1''] 3,
          AgentTask ''task-3'' ''Write report'' ''writing'' [''task-2''] 3]"
    unfolding fallback_decompose_def l
    by (simp add: research_step_def analyze_step_def write_step_def default_step_def
          pick_agent_def first_agent_def prev_dep_def str_nat_2 str_nat_3 AgentTask_def)
  then show ?thesis by simp
qed

lemma pick_agent_nonempty: "agent_types \<noteq> [] \<Longrightarrow> \<exists>ty. pick_agent preferred agent_types = Inr ty"
  by (cases agent_types) (simp_all add: pick_agent_def first_agent_def)

lemma fallback_decompose_nonempty:
  assumes "agent_types \<noteq> []"
  shows "\<exists>subtasks. fallback_decompose task agent_types = Inr subtasks"
proof -
  have r: "\<exists>ys. research_step task l agent_types xs = Inr ys" for l xs
    using pick_agent_nonempty [OF assms, of "''research''"] by (auto simp: research_step_def)
  have a: "\<exists>ys. analyze_step task l agent_types xs = Inr ys" for l xs
    using pick_agent_nonempty [OF assms, of "''analysis''"] by (auto simp: analyze_step_def)
  have w: "\<exists>ys. write_step task l agent_types xs = Inr ys" for l xs
    using pick_agent_nonempty [OF assms, of "''writing''"] by (auto simp: write_step_def)
  obtain s1 where s1: "research_step task (lower task) agent_types [] = Inr s1" using r by blast
  obtain s2 where s2: "analyze_step task (lower task) agent_types s1 = Inr s2" using a by blast
  obtain s3 where s3: "write_step task (lower task) agent_types s2 = Inr s3" using w by blast
  show ?thesis by (simp add: fallback_decompose_def s1 s2 s3)
qed

text \<open>
  Claim C5, as the code has it, for an orchestrator with a decomposer. When the call of
  the language model or the parsing of its reply raises, the decomposer itself catches
  the exception and \<^verbatim>\<open>decompose_task\<close> returns the decomposer's fallback: the
  single subtask \<^verbatim>\<open>task-1\<close> with the task text as its description, for the first
  agent type or \<^verbatim>\<open>general\<close>. When building the subtasks from the parsed reply
  raises (the reply is not iterable, an item is no object or lacks a required key) and
  at least one agent is registered, \<^verbatim>\<open>decompose_task\<close> catches the exception and
  returns the list of subtasks that the keyword fallback produces.
\<close>

theorem C5_decomposition_failure:
  assumes "use_llm orch" and "decomposer orch"
  shows "(\<forall>e w1. llm_create env task (map fst (agents orch)) w = (Llm_raised e, w1) \<longrightarrow>
            decompose_task env orch task w =
              (Inr [AgentTask ''task-1'' task
                      (case map fst (agents orch) of [] \<Rightarrow> ''general'' | a # _ \<Rightarrow> a) [] 3],
               w1)) \<and>
         (\<forall>doc w1 err. llm_create env task (map fst (agents orch)) w = (Llm_json doc, w1) \<and>
              tasks_of_document doc = Inl err \<and> agents orch \<noteq> [] \<longrightarrow>
            (\<exists>subtasks. fallback_decompose task (map fst (agents orch)) = Inr subtasks \<and>
                         decompose_task env orch task w = (Inr subtasks, w1)))"
proof -
  have call_failed: "decompose_task env orch task w =
              (Inr [AgentTask ''task-1'' task
                      (case map fst (agents orch) of [] \<Rightarrow> ''general'' | a # _ \<Rightarrow> a) [] 3],
               w1)"
    if "llm_create env task (map fst (agents orch)) w = (Llm_raised e, w1)" for e w1
    using that assms by (simp add: decompose_task_def decompose_def llm_fallback_decompose_def)
  have build_failed: "\<exists>subtasks. fallback_decompose task (map fst (agents orch)) = Inr subtasks \<and>
                         decompose_task env orch task w = (Inr subtasks, w1)"
    if h: "llm_create env task (map fst (agents orch)) w = (Llm_json doc, w1) \<and>
           tasks_of_document doc = Inl err \<and> agents orch \<noteq> []" for doc w1 err
  proof -
    from h have "map fst (agents orch) \<noteq> []" by simp
    from fallback_decompose_nonempty [OF this] obtain subtasks where
      f: "fallback_decompose task (map fst (agents orch)) = Inr subtasks" by blast
    from h assms have "decompose_task env orch task w =
        (fallback_decompose task (map fst (agents orch)), w1)"
      by (simp add: decompose_task_def decompose_def)
    with f show ?thesis by simp
  qed
  from call_failed build_failed show ?thesis by blast
qed

text \<open>C5 on a call that fails and on a reply whose only item is no object.\<close>

theorem C5_decomposition_failure_witness:
  "decompose_task (demo_env offline)
     (demo_orch [(''research'', Succeeds), (''writing'', Succeeds)] True)
     ''research and report'' 0 =
     (Inr [AgentTask ''task-1'' ''research and report'' ''research'' [] 3], 0) \<and>
   decompose_task (demo_env (Llm_json (Doc_items [Not_dict])))
     (demo_orch [(''research'', Succeeds), (''writing'', Succeeds)] True)
     ''research and report'' 0 =
     (Inr [AgentTask ''task-1'' ''Research: research and report'' ''research'' [] 3,
           AgentTask ''task-2'' ''Write report'' ''writing'' [''task-1''] 3], 0)"
proof -
  let ?orch = "demo_orch [(''research'', Succeeds), (''writing'', Succeeds)] True"
  have u: "use_llm ?orch" "decomposer ?orch" by (simp_all add: demo_orch_def)
  have ag: "map fst (agents ?orch) = [''research'', ''writing'']" by (simp add: demo_orch_def)
  have ne: "agents ?orch \<noteq> []" by (simp add: demo_orch_def)
  have l1: "llm_create (demo_env offline) ''research and report'' (map fst (agents ?orch)) 0
              = (Llm_raised ''connection refused'', 0)"
    by (simp add: demo_env_def offline_def)
  have l2: "llm_create (demo_env (Llm_json (Doc_items [Not_dict]))) ''research and report''
              (map fst (agents ?orch)) 0 = (Llm_json (Doc_items [Not_dict]), 0)"
    by (simp add: demo_env_def)
  have t2: "tasks_of_document (Doc_items [Not_dict]) = Inl TypeError" by simp
  have l: "lower ''research and report'' = ''research and report''"
    by (simp add: lower_def lower_char_def)
  have f: "fallback_decompose ''research and report'' (map fst (agents ?orch)) =
     Inr [AgentTask ''task-1'' ''Research: research and report'' ''research'' [] 3,
          AgentTask ''task-2'' ''Write report'' ''writing'' [''task-1''] 3]"
    unfolding fallback_decompose_def l ag
    by (simp add: research_step_def analyze_step_def write_step_def default_step_def
          pick_agent_def first_agent_def prev_dep_def str_nat_2 AgentTask_def)
  from C5_decomposition_failure [OF u, of "demo_env offline" "''research and report''" 0] l1
  have a: "decompose_task (demo_env offline) ?orch ''research and report'' 0 =
     (Inr [AgentTask ''task-1'' ''research and report''
             (case map fst (agents ?orch) of [] \<Rightarrow> ''general'' | a # _ \<Rightarrow> a) [] 3], 0)"
    by blast
  from C5_decomposition_failure [OF u, of "demo_env (Llm_json (Doc_items [Not_dict]))"
        "''research and report''" 0] l2 t2 ne
  obtain subtasks where
    b: "fallback_decompose ''research and report'' (map fst (agents ?orch)) = Inr subtasks"
       "decompose_task (demo_env (Llm_json (Doc_items [Not_dict]))) ?orch
             ''research and report'' 0 = (Inr subtasks, 0)"
    by blast
  from b f have "decompose_task (demo_env (Llm_json (Doc_items [Not_dict]))) ?orch
             ''research and report'' 0 =
     (Inr [AgentTask ''task-1'' ''Research: research and report'' ''research'' [] 3,
           AgentTask ''task-2'' ''Write report'' ''writing'' [''task-1''] 3], 0)"
    by simp
  with a show ?thesis unfolding ag by simp
qed

text \<open>
  Claim C5 as stated fails for a call failure: the engine's result is the single
  subtask of the decomposer's own fallback, not the two subtasks that the keyword
  fallback gives for the same text and agent types.
\<close>

theorem C5_call_failure_counterexample:
  "decompose_task (demo_env offline)
     (demo_orch [(''research'', Succeeds), (''writing'', Succeeds)] True)
     ''research and report'' 0 =
     (Inr [AgentTask ''task-1'' ''research and report'' ''research'' [] 3], 0) \<and>
   fallback_decompose ''research and report'' [''research'', ''writing''] =
     Inr [AgentTask ''task-1'' ''Research: research and report'' ''research'' [] 3,
          AgentTask ''task-2'' ''Write report'' ''writing'' [''task-1''] 3]"
proof -
  have l: "lower ''research and report'' = ''research and report''"
    by (simp add: lower_def lower_char_def)
  have "fallback_decompose ''research and report'' [''research'', ''writing''] =
     Inr [AgentTask ''task-1'' ''Research: research and report'' ''research'' [] 3,
          AgentTask ''task-2'' ''Write report'' ''writing'' [''task-1''] 3]"
    unfolding fallback_decompose_def l
    by (simp add: research_step_def analyze_step_def write_step_def default_step_def
          pick_agent_def first_agent_def prev_dep_def str_nat_2 AgentTask_def)
  moreover have "decompose_task (demo_env offline)
     (demo_orch [(''research'', Succeeds), (''writing'', Succeeds)] True)
     ''research and report'' 0 =
     (Inr [AgentTask ''task-1'' ''research and report'' ''research'' [] 3], 0)"
    by (simp add: decompose_task_def decompose_def llm_fallback_decompose_def demo_env_def
          demo_orch_def offline_def)
  ultimately show ?thesis by simp
qed

text \<open>
  With no agent registered the exception of the list comprehension is caught as well,
  but the keyword fallback that follows raises in its turn on a text with a marker, and
  \<^verbatim>\<open>decompose_task\<close> returns no subtasks at all. \<^verbatim>\<open>{"task_id": "task-1"}\<close> is such
  a reply: iterating over the object yields its key, a string, which
  \<^verbatim>\<open>st["task_id"]\<close> cannot subscript.
\<close>

lemma malformed_reply_empty_registry:
  "decompose_task (demo_env (Llm_json (Doc_items [Not_dict]))) (demo_orch [] True)
     ''Please REPORT back'' 0 = (Inl IndexError, 0)"
proof -
  have l: "lower ''Please REPORT back'' = ''please report back''"
    by (simp add: lower_def lower_char_def)
  have "fallback_decompose ''Please REPORT back'' [] = Inl IndexError"
    unfolding fallback_decompose_def l
    by (simp add: research_step_def analyze_step_def write_step_def pick_agent_def
          first_agent_def)
  then show ?thesis
    by (simp add: decompose_task_def decompose_def demo_env_def demo_orch_def)
qed

subsection \<open>One batch of coordinate\<close>

lemma execute_task_frame:
  "task_id (fst (execute_task env orch task w)) = task_id task \<and>
   dependencies (fst (execute_task env orch task w)) = dependencies task"
proof (cases "map_of (agents orch) (agent_type task)")
  case None
  then show ?thesis by (simp add: execute_task_unregistered)
next
  case (Some agent)
  show ?thesis
  proof (cases "agent_true env agent w")
    case False
    with Some show ?thesis by (simp add: execute_task_false_agent)
  next
    case True
    obtain t w1 where n: "now env w = (t, w1)" by (cases "now env w")
    show ?thesis
      using retry_loop_frame [of env orch agent
          "task\<lparr>status := Running, started_at := Some t, assigned_agent := Some (agent_type task)\<rparr>" w1]
      by (simp add: execute_task_registered [OF Some True n])
  qed
qed

lemma execute_task_status:
  "status (fst (execute_task env orch task w)) \<noteq> Pending \<and>
   (retry_count task \<le> max_retries task \<longrightarrow>
      status (fst (execute_task env orch task w)) = Completed \<or>
      status (fst (execute_task env orch task w)) = Failed)"
proof (cases "map_of (agents orch) (agent_type task)")
  case None
  then show ?thesis by (simp add: execute_task_unregistered)
next
  case (Some agent)
  show ?thesis
  proof (cases "agent_true env agent w")
    case False
    with Some show ?thesis by (simp add: execute_task_false_agent)
  next
    case True
    obtain t w1 where n: "now env w = (t, w1)" by (cases "now env w")
    let ?t1 = "task\<lparr>status := Running, started_at := Some t, assigned_agent := Some (agent_type task)\<rparr>"
    have "retry_count ?t1 = retry_count task" "max_retries ?t1 = max_retries task"
         "status ?t1 = Running"
      by simp_all
    with retry_loop_status [of env orch agent ?t1 w1] show ?thesis
      by (auto simp: execute_task_registered [OF Some True n] split: if_splits)
  qed
qed

lemma executed_frame:
  "executed env orch t t' \<Longrightarrow> task_id t' = task_id t \<and> dependencies t' = dependencies t"
  by (auto simp: executed_def execute_task_frame)

lemma executed_not_pending: "executed env orch t t' \<Longrightarrow> status t' \<noteq> Pending"
  using execute_task_status [of env orch t] by (auto simp: executed_def)

lemma executed_terminal:
  "executed env orch t t' \<Longrightarrow> retry_count t \<le> max_retries t \<Longrightarrow>
     status t' = Completed \<or> status t' = Failed"
  using execute_task_status [of env orch t] by (auto simp: executed_def)

lemma gather_length: "length (fst (gather env orch refs tasks w)) = length tasks"
  by (induction refs arbitrary: tasks w) (simp_all split: prod.splits)

lemma gather_other:
  "i \<notin> set refs \<Longrightarrow> fst (gather env orch refs tasks w) ! i = tasks ! i"
  by (induction refs arbitrary: tasks w) (auto split: prod.splits)

lemma gather_executed:
  "distinct refs \<Longrightarrow> i \<in> set refs \<Longrightarrow> i < length tasks \<Longrightarrow>
     executed env orch (tasks ! i) (fst (gather env orch refs tasks w) ! i)"
proof (induction refs arbitrary: tasks w)
  case Nil
  then show ?case by simp
next
  case (Cons r refs)
  obtain t' w' evs where ex: "execute_task env orch (tasks ! r) w = (t', w', evs)"
    by (cases "execute_task env orch (tasks ! r) w") auto
  have g: "gather env orch (r # refs) tasks w = gather env orch refs (tasks[r := t']) w'"
    by (simp add: ex)
  show ?case
  proof (cases "i = r")
    case True
    with Cons.prems have "i \<notin> set refs" by simp
    then have "fst (gather env orch refs (tasks[r := t']) w') ! i = (tasks[r := t']) ! i"
      by (rule gather_other)
    with True Cons.prems(3) have "fst (gather env orch (r # refs) tasks w) ! i = t'"
      unfolding g by simp
    moreover have "executed env orch (tasks ! i) t'"
      using ex True by (auto simp: executed_def intro: exI [of _ w])
    ultimately show ?thesis by simp
  next
    case False
    with Cons.prems have "distinct refs" "i \<in> set refs" "i < length (tasks[r := t'])"
      by simp_all
    then have "executed env orch ((tasks[r := t']) ! i)
                 (fst (gather env orch refs (tasks[r := t']) w') ! i)"
      by (rule Cons.IH)
    with False show ?thesis unfolding g by simp
  qed
qed

lemma ready_refs_props:
  "distinct (ready_refs tasks)"
  "i \<in> set (ready_refs tasks) \<longleftrightarrow> i < length tasks \<and> is_ready tasks (tasks ! i)"
  by (auto simp: ready_refs_def)

lemma get_ready_tasks_refs: "get_ready_tasks tasks = (ready_refs tasks, tasks)"
  by (simp add: get_ready_tasks_eq ready_refs_def)

lemma gather_advances:
  assumes "gather env orch (ready_refs tasks) tasks w = (tasks2, w2)"
  shows "advances env orch tasks tasks2"
proof -
  from assms have t2: "tasks2 = fst (gather env orch (ready_refs tasks) tasks w)" by simp
  show ?thesis
    unfolding advances_def t2
    by (auto simp: gather_length ready_refs_props intro: gather_executed gather_other)
qed

lemma advances_ids:
  assumes "advances env orch tasks tasks2"
  shows "map task_id tasks2 = map task_id tasks" and "map dependencies tasks2 = map dependencies tasks"
proof -
  have "task_id (tasks2 ! i) = task_id (tasks ! i) \<and> dependencies (tasks2 ! i) = dependencies (tasks ! i)"
    if "i < length tasks" for i
    using assms that executed_frame [of env orch "tasks ! i" "tasks2 ! i"]
    by (cases "is_ready tasks (tasks ! i)") (auto simp: advances_def)
  moreover from assms have "length tasks2 = length tasks" by (simp add: advances_def)
  ultimately show "map task_id tasks2 = map task_id tasks"
    and "map dependencies tasks2 = map dependencies tasks"
    by (auto intro: nth_equalityI)
qed

lemma good_nth: "good tasks \<longleftrightarrow> (\<forall>i < length tasks. status (tasks ! i) = Completed \<or>
     status (tasks ! i) = Failed \<or>
     (status (tasks ! i) = Pending \<and> retry_count (tasks ! i) \<le> max_retries (tasks ! i)))"
  by (simp add: good_def all_set_conv_all_nth)

lemma advances_good:
  assumes "advances env orch tasks tasks2" and "good tasks"
  shows "good tasks2"
  unfolding good_nth
proof (intro allI impI)
  fix i assume "i < length tasks2"
  with assms(1) have i: "i < length tasks" by (simp add: advances_def)
  with assms(2) have g: "status (tasks ! i) = Completed \<or> status (tasks ! i) = Failed \<or>
     (status (tasks ! i) = Pending \<and> retry_count (tasks ! i) \<le> max_retries (tasks ! i))"
    by (simp add: good_nth)
  show "status (tasks2 ! i) = Completed \<or> status (tasks2 ! i) = Failed \<or>
     (status (tasks2 ! i) = Pending \<and> retry_count (tasks2 ! i) \<le> max_retries (tasks2 ! i))"
  proof (cases "is_ready tasks (tasks ! i)")
    case True
    with assms(1) i have "executed env orch (tasks ! i) (tasks2 ! i)" by (simp add: advances_def)
    moreover from True g have "retry_count (tasks ! i) \<le> max_retries (tasks ! i)"
      by (auto simp: is_ready_def)
    ultimately show ?thesis using executed_terminal by blast
  next
    case False
    with assms(1) i have "tasks2 ! i = tasks ! i" by (simp add: advances_def)
    with g show ?thesis by simp
  qed
qed

lemma advances_pending:
  assumes "advances env orch tasks tasks2" and "ready_refs tasks \<noteq> []"
  shows "card (pending_refs tasks2) < card (pending_refs tasks)"
proof (rule psubset_card_mono)
  show "finite (pending_refs tasks)" by (simp add: pending_refs_def)
  from assms(1) have len: "length tasks2 = length tasks" by (simp add: advances_def)
  have sub: "pending_refs tasks2 \<subseteq> pending_refs tasks"
  proof
    fix i assume "i \<in> pending_refs tasks2"
    then have i: "i < length tasks" and p: "status (tasks2 ! i) = Pending"
      by (simp_all add: pending_refs_def len)
    have "\<not> is_ready tasks (tasks ! i)"
    proof
      assume "is_ready tasks (tasks ! i)"
      with assms(1) i have "executed env orch (tasks ! i) (tasks2 ! i)" by (simp add: advances_def)
      with p executed_not_pending show False by blast
    qed
    with assms(1) i have "tasks2 ! i = tasks ! i" by (simp add: advances_def)
    with i p show "i \<in> pending_refs tasks" by (simp add: pending_refs_def)
  qed
  from assms(2) obtain r where r: "r \<in> set (ready_refs tasks)" by (cases "ready_refs tasks") auto
  then have ri: "r < length tasks" and rr: "is_ready tasks (tasks ! r)"
    by (simp_all add: ready_refs_props)
  from rr have "r \<in> pending_refs tasks" using ri by (simp add: pending_refs_def is_ready_def)
  moreover have "r \<notin> pending_refs tasks2"
  proof
    assume "r \<in> pending_refs tasks2"
    then have "status (tasks2 ! r) = Pending" by (simp add: pending_refs_def)
    moreover from assms(1) ri rr have "executed env orch (tasks ! r) (tasks2 ! r)"
      by (simp add: advances_def)
    ultimately show False using executed_not_pending by blast
  qed
  ultimately show "pending_refs tasks2 \<subset> pending_refs tasks" using sub by blast
qed

lemma first_completed_missing: "p \<notin> task_id ` set tasks \<Longrightarrow> \<not> first_completed tasks p"
  by (simp add: first_completed_def find_task_id_None [symmetric])

lemma blocked_not_ready: "blocked tasks i \<Longrightarrow> \<not> is_ready tasks (tasks ! i)"
  using first_completed_missing by (auto simp: blocked_def is_ready_def)

lemma advances_blocked:
  assumes "advances env orch tasks tasks2" and "blocked tasks i"
  shows "blocked tasks2 i"
proof -
  from assms(2) have i: "i < length tasks" by (simp add: blocked_def)
  from blocked_not_ready [OF assms(2)] assms(1) i have same: "tasks2 ! i = tasks ! i"
    by (simp add: advances_def)
  have "task_id ` set tasks2 = task_id ` set tasks"
    using advances_ids(1) [OF assms(1)] by (metis set_map)
  with assms same i show ?thesis by (simp add: blocked_def advances_def)
qed

subsection \<open>The loop of coordinate\<close>

lemma any_pending_iff:
  "list_ex (\<lambda>t. status t = Pending) tasks \<longleftrightarrow> pending_refs tasks \<noteq> {}"
  by (fastforce simp: list_ex_iff pending_refs_def in_set_conv_nth)

lemma coordinate_loop_left:
  "\<not> (list_ex (\<lambda>t. status t = Pending) subtasks \<and> iteration < max_iterations) \<Longrightarrow>
   coordinate_loop env orch iteration subtasks w =
     (subtasks, w, [],
      if list_ex (\<lambda>t. status t = Pending) subtasks then Cap_reached else All_dispatched)"
  by (auto simp: coordinate_loop.simps [of env orch iteration subtasks w])

lemma coordinate_loop_stalled:
  "list_ex (\<lambda>t. status t = Pending) subtasks \<Longrightarrow> iteration < max_iterations \<Longrightarrow>
   ready_refs subtasks = [] \<Longrightarrow>
   coordinate_loop env orch iteration subtasks w = (subtasks, w, [[]], Stalled)"
  by (simp add: coordinate_loop.simps [of env orch iteration subtasks w] get_ready_tasks_refs)

lemma coordinate_loop_batch:
  "list_ex (\<lambda>t. status t = Pending) subtasks \<Longrightarrow> iteration < max_iterations \<Longrightarrow>
   ready_refs subtasks \<noteq> [] \<Longrightarrow>
   gather env orch (ready_refs subtasks) subtasks w = (subtasks2, w2) \<Longrightarrow>
   coordinate_loop env orch (iteration + 1) subtasks2 w2 = (subtasks3, w3, batches, how) \<Longrightarrow>
   coordinate_loop env orch iteration subtasks w =
     (subtasks3, w3, ready_refs subtasks # batches, how)"
  by (simp add: coordinate_loop.simps [of env orch iteration subtasks w] get_ready_tasks_refs)

lemma coordinate_loop_cases_induct [consumes 0, case_names Left Stall Batch]:
  assumes left: "\<And>iteration subtasks w.
             \<not> (list_ex (\<lambda>t. status t = Pending) subtasks \<and> iteration < max_iterations) \<Longrightarrow>
             P iteration subtasks w
               (subtasks, w, [],
                if list_ex (\<lambda>t. status t = Pending) subtasks then Cap_reached else All_dispatched)"
      and stall: "\<And>iteration subtasks w.
             list_ex (\<lambda>t. status t = Pending) subtasks \<Longrightarrow> iteration < max_iterations \<Longrightarrow>
             ready_refs subtasks = [] \<Longrightarrow>
             P iteration subtasks w (subtasks, w, [[]], Stalled)"
      and batch: "\<And>iteration subtasks w subtasks2 w2 subtasks3 w3 batches how.
             list_ex (\<lambda>t. status t = Pending) subtasks \<Longrightarrow> iteration < max_iterations \<Longrightarrow>
             ready_refs subtasks \<noteq> [] \<Longrightarrow>
             advances env orch subtasks subtasks2 \<Longrightarrow>
             coordinate_loop env orch (iteration + 1) subtasks2 w2 = (subtasks3, w3, batches, how) \<Longrightarrow>
             P (iteration + 1) subtasks2 w2 (subtasks3, w3, batches, how) \<Longrightarrow>
             P iteration subtasks w (subtasks3, w3, ready_refs subtasks # batches, how)"
  shows "P iteration subtasks w (coordinate_loop env orch iteration subtasks w)"
proof (induction "max_iterations - iteration" arbitrary: iteration subtasks w rule: less_induct)
  case less
  show ?case
  proof (cases "list_ex (\<lambda>t. status t = Pending) subtasks \<and> iteration < max_iterations")
    case False
    show ?thesis
      unfolding coordinate_loop_left [OF False] by (rule left [OF False])
  next
    case True
    then have p: "list_ex (\<lambda>t. status t = Pending) subtasks" and k: "iteration < max_iterations"
      by simp_all
    show ?thesis
    proof (cases "ready_refs subtasks = []")
      case True
      show ?thesis
        unfolding coordinate_loop_stalled [OF p k True] by (rule stall [OF p k True])
    next
      case False
      obtain subtasks2 w2 where g: "gather env orch (ready_refs subtasks) subtasks w = (subtasks2, w2)"
        by (cases "gather env orch (ready_refs subtasks) subtasks w")
      obtain subtasks3 w3 batches how where
        r: "coordinate_loop env orch (iteration + 1) subtasks2 w2 = (subtasks3, w3, batches, how)"
        by (cases "coordinate_loop env orch (iteration + 1) subtasks2 w2")
      have "max_iterations - (iteration + 1) < max_iterations - iteration" using k by simp
      then have "P (iteration + 1) subtasks2 w2
                   (coordinate_loop env orch (iteration + 1) subtasks2 w2)"
        by (rule less.hyps)
      then have IH: "P (iteration + 1) subtasks2 w2 (subtasks3, w3, batches, how)"
        unfolding r .
      show ?thesis
        unfolding coordinate_loop_batch [OF p k False g r]
        by (rule batch [OF p k False gather_advances [OF g] r IH])
    qed
  qed
qed

lemma coordinate_loop_ids:
  "map task_id (fst (coordinate_loop env orch iteration subtasks w)) = map task_id subtasks \<and>
   map dependencies (fst (coordinate_loop env orch iteration subtasks w)) = map dependencies subtasks"
  by (induction iteration subtasks w rule: coordinate_loop_cases_induct [of _ env orch])
     (simp_all add: advances_ids)

lemma coordinate_loop_good:
  "good subtasks \<longrightarrow> good (fst (coordinate_loop env orch iteration subtasks w))"
  by (induction iteration subtasks w rule: coordinate_loop_cases_induct [of _ env orch])
     (auto dest: advances_good)

lemma coordinate_loop_how:
  "(case coordinate_loop env orch iteration subtasks w of
      (subtasks', w', batches, how) \<Rightarrow>
        (how = All_dispatched \<longrightarrow> \<not> list_ex (\<lambda>t. status t = Pending) subtasks') \<and>
        (how = Stalled \<longrightarrow> list_ex (\<lambda>t. status t = Pending) subtasks' \<and> ready_refs subtasks' = []) \<and>
        (how = Cap_reached \<longrightarrow> list_ex (\<lambda>t. status t = Pending) subtasks'))"
  by (induction iteration subtasks w rule: coordinate_loop_cases_induct [of _ env orch])
     simp_all

lemma coordinate_loop_cap:
  "iteration + card (pending_refs subtasks) \<le> max_iterations \<longrightarrow>
     snd (snd (snd (coordinate_loop env orch iteration subtasks w))) \<noteq> Cap_reached"
proof (induction iteration subtasks w rule: coordinate_loop_cases_induct [of _ env orch])
  case (Left iteration subtasks w)
  show ?case
  proof (cases "list_ex (\<lambda>t. status t = Pending) subtasks")
    case True
    with Left have "max_iterations \<le> iteration" by simp
    moreover from True have "0 < card (pending_refs subtasks)"
      by (simp add: any_pending_iff card_gt_0_iff pending_refs_def)
    ultimately show ?thesis by simp
  next
    case False
    then show ?thesis by simp
  qed
next
  case (Stall iteration subtasks w)
  then show ?case by simp
next
  case (Batch iteration subtasks w subtasks2 w2 subtasks3 w3 batches how)
  from advances_pending [OF Batch(4,3)] Batch(6) show ?case by simp
qed

lemma coordinate_loop_blocked:
  "blocked subtasks i \<longrightarrow>
     blocked (fst (coordinate_loop env orch iteration subtasks w)) i \<and>
     (\<forall>b \<in> set (fst (snd (snd (coordinate_loop env orch iteration subtasks w)))). i \<notin> set b)"
proof (induction iteration subtasks w rule: coordinate_loop_cases_induct [of _ env orch])
  case (Left iteration subtasks w)
  then show ?case by simp
next
  case (Stall iteration subtasks w)
  then show ?case by simp
next
  case (Batch iteration subtasks w subtasks2 w2 subtasks3 w3 batches how)
  show ?case
  proof
    assume b: "blocked subtasks i"
    from blocked_not_ready [OF b] have "i \<notin> set (ready_refs subtasks)"
      by (simp add: ready_refs_props)
    moreover from advances_blocked [OF Batch(4) b] Batch(6)
    have "blocked subtasks3 i \<and> (\<forall>b \<in> set batches. i \<notin> set b)" by simp
    ultimately show "blocked (fst (subtasks3, w3, ready_refs subtasks # batches, how)) i \<and>
      (\<forall>b \<in> set (fst (snd (snd (subtasks3, w3, ready_refs subtasks # batches, how)))). i \<notin> set b)"
      by simp
  qed
qed

subsection \<open>Decomposed subtasks and stalled runs\<close>

lemma newly_built_AgentTask: "newly_built (AgentTask tid desc ty deps dur)"
  by (simp add: newly_built_def AgentTask_def)

lemma newly_built_fields:
  assumes "newly_built t"
  shows "status t = Pending \<and> retry_count t = 0 \<and> max_retries t = 2"
proof -
  let ?t = "AgentTask (task_id t) (description t) (agent_type t) (dependencies t)
              (estimated_duration t)"
  from assms have "t = ?t" by (simp add: newly_built_def)
  then have "status t = status ?t" "retry_count t = retry_count ?t" "max_retries t = max_retries ?t"
    by simp_all
  then show ?thesis by (simp add: AgentTask_def)
qed

lemma newly_built_good: "\<forall>t \<in> set tasks. newly_built t \<Longrightarrow> good tasks"
  by (simp add: good_def newly_built_fields)

lemma task_of_item_newly_built: "task_of_item st = Inr t \<Longrightarrow> newly_built t"
  by (cases st) (auto simp: newly_built_AgentTask split: option.splits)

lemma tasks_of_items_newly_built:
  "tasks_of_items items = Inr ts \<Longrightarrow> \<forall>t \<in> set ts. newly_built t"
  by (induction items arbitrary: ts)
     (auto split: sum.splits dest: task_of_item_newly_built)

lemma tasks_of_document_newly_built:
  "tasks_of_document doc = Inr ts \<Longrightarrow> \<forall>t \<in> set ts. newly_built t"
  by (cases doc) (auto dest: tasks_of_items_newly_built)

lemma research_step_newly_built:
  "research_step task l agent_types xs = Inr ys \<Longrightarrow> \<forall>t \<in> set xs. newly_built t \<Longrightarrow>
     \<forall>t \<in> set ys. newly_built t"
  by (auto simp: research_step_def newly_built_AgentTask split: if_splits sum.splits)

lemma analyze_step_newly_built:
  "analyze_step task l agent_types xs = Inr ys \<Longrightarrow> \<forall>t \<in> set xs. newly_built t \<Longrightarrow>
     \<forall>t \<in> set ys. newly_built t"
  by (auto simp: analyze_step_def newly_built_AgentTask split: if_splits sum.splits)

lemma write_step_newly_built:
  "write_step task l agent_types xs = Inr ys \<Longrightarrow> \<forall>t \<in> set xs. newly_built t \<Longrightarrow>
     \<forall>t \<in> set ys. newly_built t"
  by (auto simp: write_step_def newly_built_AgentTask split: if_splits sum.splits)

lemma default_step_newly_built:
  "\<forall>t \<in> set xs. newly_built t \<Longrightarrow> \<forall>t \<in> set (default_step task agent_types xs). newly_built t"
  by (auto simp: default_step_def newly_built_AgentTask)

lemma fallback_decompose_steps:
  assumes "fallback_decompose task agent_types = Inr ts"
  shows "\<exists>s1 s2 s3. research_step task (lower task) agent_types [] = Inr s1 \<and>
    analyze_step task (lower task) agent_types s1 = Inr s2 \<and>
    write_step task (lower task) agent_types s2 = Inr s3 \<and>
    ts = default_step task agent_types s3"
  using assms by (auto simp: fallback_decompose_def Let_def split: sum.splits)

lemma fallback_decompose_newly_built:
  assumes "fallback_decompose task agent_types = Inr ts"
  shows "\<forall>t \<in> set ts. newly_built t"
proof -
  from fallback_decompose_steps [OF assms] obtain s1 s2 s3 where
    s: "research_step task (lower task) agent_types [] = Inr s1"
    "analyze_step task (lower task) agent_types s1 = Inr s2"
    "write_step task (lower task) agent_types s2 = Inr s3"
    "ts = default_step task agent_types s3"
    by blast
  have "\<forall>t \<in> set s1. newly_built t" by (rule research_step_newly_built [OF s(1)]) simp
  then have "\<forall>t \<in> set s2. newly_built t" by (rule analyze_step_newly_built [OF s(2)])
  then have "\<forall>t \<in> set s3. newly_built t" by (rule write_step_newly_built [OF s(3)])
  then show ?thesis unfolding s(4) by (rule default_step_newly_built)
qed

lemma decompose_task_newly_built:
  assumes "decompose_task env orch task w = (Inr subtasks, w1)"
  shows "\<forall>t \<in> set subtasks. newly_built t"
  using assms
  by (auto simp: decompose_task_def Let_def
           split: if_splits prod.splits sum.splits
           dest: tasks_of_document_newly_built fallback_decompose_newly_built)

lemma length_filter_all: "length (filter P xs) = length xs \<longleftrightarrow> (\<forall>x \<in> set xs. P x)"
proof (induction xs)
  case Nil
  then show ?case by simp
next
  case (Cons x xs)
  have "length (filter P xs) \<le> length xs" by (rule length_filter_le)
  then have "length (filter P xs) \<noteq> Suc (length xs)" by linarith
  with Cons show ?case by simp
qed

lemma card_pending_refs: "card (pending_refs tasks) \<le> length tasks"
proof -
  have "pending_refs tasks \<subseteq> {..<length tasks}" by (auto simp: pending_refs_def)
  then have "card (pending_refs tasks) \<le> card {..<length tasks}"
    by (intro card_mono) simp_all
  then show ?thesis by simp
qed

lemma resolvable_nth:
  "resolvable tasks \<longleftrightarrow>
     (\<forall>i < length tasks. \<forall>d \<in> set (dependencies (tasks ! i)). d \<in> set (map task_id tasks))"
  by (simp add: resolvable_def all_set_conv_all_nth)

lemma acyclic_nth:
  "acyclic_deps tasks \<longleftrightarrow>
     (\<exists>rank :: string \<Rightarrow> nat. \<forall>i < length tasks. \<forall>d \<in> set (dependencies (tasks ! i)).
          rank d < rank (task_id (tasks ! i)))"
  by (simp add: acyclic_deps_def all_set_conv_all_nth)

lemma same_graph:
  assumes "map task_id tasks' = map task_id tasks"
      and "map dependencies tasks' = map dependencies tasks"
  shows "resolvable tasks' = resolvable tasks" and "acyclic_deps tasks' = acyclic_deps tasks"
proof -
  from assms(1) have len: "length tasks' = length tasks" by (metis length_map)
  have ids: "task_id (tasks' ! i) = task_id (tasks ! i)" if "i < length tasks" for i
    using assms(1) that len by (metis nth_map)
  have deps: "dependencies (tasks' ! i) = dependencies (tasks ! i)" if "i < length tasks" for i
    using assms(2) that len by (metis nth_map)
  show "resolvable tasks' = resolvable tasks"
    unfolding resolvable_nth assms(1) len using deps by auto
  show "acyclic_deps tasks' = acyclic_deps tasks"
    unfolding acyclic_nth len using deps ids by auto
qed

lemma stalled_unmet:
  assumes "ready_refs tasks = []" and "t \<in> set tasks" and "status t = Pending"
  shows "\<exists>p \<in> set (dependencies t). \<not> first_completed tasks p"
proof -
  from assms(2) obtain i where i: "i < length tasks" "tasks ! i = t"
    by (auto simp: in_set_conv_nth)
  from assms(1) have "i \<notin> set (ready_refs tasks)" by simp
  with i have "\<not> is_ready tasks t" by (simp add: ready_refs_props)
  with assms(3) show ?thesis by (simp add: is_ready_def)
qed

lemma unmet_resolves:
  assumes "resolvable tasks" and "t \<in> set tasks" and "p \<in> set (dependencies t)"
      and "\<not> first_completed tasks p"
  shows "\<exists>u \<in> set tasks. task_id u = p \<and> status u \<noteq> Completed"
proof -
  from assms(1-3) have "p \<in> task_id ` set tasks" by (auto simp: resolvable_def)
  then have "find (\<lambda>t. task_id t = p) tasks \<noteq> None" by (simp add: find_task_id_None)
  then obtain u where u: "find (\<lambda>t. task_id t = p) tasks = Some u" by auto
  with assms(4) have "status u \<noteq> Completed" by (simp add: first_completed_def)
  with find_task_id [OF u] show ?thesis by blast
qed

lemma stalled_has_failed:
  assumes "acyclic_deps tasks" and "resolvable tasks" and "good tasks"
      and "ready_refs tasks = []" and "list_ex (\<lambda>t. status t = Pending) tasks"
  shows "\<exists>t \<in> set tasks. status t = Failed"
proof (rule ccontr)
  assume none: "\<not> (\<exists>t \<in> set tasks. status t = Failed)"
  from assms(1) obtain rank :: "string \<Rightarrow> nat" where
    rank: "\<And>t d. t \<in> set tasks \<Longrightarrow> d \<in> set (dependencies t) \<Longrightarrow> rank d < rank (task_id t)"
    by (auto simp: acyclic_deps_def)
  have "\<exists>u \<in> set tasks. status u = Pending \<and> rank (task_id u) < rank (task_id t)"
    if t: "t \<in> set tasks" "status t = Pending" for t
  proof -
    from stalled_unmet [OF assms(4) t] obtain p where
      p: "p \<in> set (dependencies t)" "\<not> first_completed tasks p" by blast
    from unmet_resolves [OF assms(2) t(1) p] obtain u where
      u: "u \<in> set tasks" "task_id u = p" "status u \<noteq> Completed" by blast
    from u(1,3) assms(3) none have "status u = Pending" by (auto simp: good_def)
    moreover from rank [OF t(1) p(1)] u(2) have "rank (task_id u) < rank (task_id t)" by simp
    ultimately show ?thesis using u(1) by blast
  qed
  then have no_least: "\<not> (t \<in> set tasks \<and> status t = Pending)" for t
  proof (induction "rank (task_id t)" arbitrary: t rule: less_induct)
    case less
    show ?case
    proof
      assume a: "t \<in> set tasks \<and> status t = Pending"
      with less.prems obtain u where "u \<in> set tasks" "status u = Pending"
        "rank (task_id u) < rank (task_id t)" by blast
      with less.hyps [of u] less.prems show False by blast
    qed
  qed
  with assms(5) show False by (auto simp: list_ex_iff)
qed

subsection \<open>coordinate\<close>

lemma coordinate_loop_within_cap:
  "iteration \<le> max_iterations \<longrightarrow>
     iteration + length (fst (snd (snd (coordinate_loop env orch iteration subtasks w))))
       \<le> max_iterations"
  by (induction iteration subtasks w rule: coordinate_loop_cases_induct [of _ env orch])
     simp_all

lemma coordinate_result:
  assumes "now env w = (start_time, w0)"
      and "decompose_task env orch complex_task w0 = (Inr subtasks, w1)"
      and "coordinate_loop env orch 0 subtasks (run_world env orch w1) = (subtasks', w3, batches, how)"
  shows "\<exists>res orch' w'.
           coordinate env orch complex_task w = (Inr res, orch', w') \<and>
           res_subtasks res = map to_dict subtasks' \<and>
           success res = (\<forall>t \<in> set subtasks'. status t = Completed)"
    and "coordinate_trace env orch complex_task w = Some (batches, how)"
  using assms
  by (simp_all add: coordinate_def coordinate_trace_def run_world_def Let_def length_filter_all
        split: prod.splits)

lemma final_state:
  assumes "\<forall>t \<in> set subtasks. newly_built t"
      and "acyclic_deps subtasks" and "resolvable subtasks"
      and "length subtasks \<le> max_iterations"
      and "coordinate_loop env orch 0 subtasks w = (subtasks', w3, batches, how)"
  shows "\<forall>t \<in> set subtasks'.
           status t = Completed \<or> status t = Failed \<or>
           (status t = Pending \<and>
            (\<exists>p \<in> set (dependencies t). \<exists>u \<in> set subtasks'. task_id u = p \<and> status u \<noteq> Completed))"
    and "(\<exists>t \<in> set subtasks'. status t = Failed) \<or> (\<forall>t \<in> set subtasks'. status t = Completed)"
proof -
  have ts': "subtasks' = fst (coordinate_loop env orch 0 subtasks w)"
    and how: "how = snd (snd (snd (coordinate_loop env orch 0 subtasks w)))"
    using assms(5) by simp_all
  have ids: "map task_id subtasks' = map task_id subtasks"
    and deps: "map dependencies subtasks' = map dependencies subtasks"
    unfolding ts' using coordinate_loop_ids [of env orch 0 subtasks w] by simp_all
  have g: "good subtasks'"
    unfolding ts' using coordinate_loop_good [of subtasks env orch 0 w] newly_built_good [OF assms(1)]
    by simp
  have "0 + card (pending_refs subtasks) \<le> max_iterations"
    using card_pending_refs [of subtasks] assms(4) by simp
  then have cap: "how \<noteq> Cap_reached"
    unfolding how using coordinate_loop_cap [of 0 subtasks env orch w] by simp
  from coordinate_loop_how [of env orch 0 subtasks w] assms(5)
  have h1: "how = All_dispatched \<longrightarrow> \<not> list_ex (\<lambda>t. status t = Pending) subtasks'"
    and h2: "how = Stalled \<longrightarrow> list_ex (\<lambda>t. status t = Pending) subtasks' \<and> ready_refs subtasks' = []"
    by simp_all
  have res: "resolvable subtasks'" and acy: "acyclic_deps subtasks'"
    using same_graph [OF ids deps] assms(2,3) by simp_all
  show "\<forall>t \<in> set subtasks'.
           status t = Completed \<or> status t = Failed \<or>
           (status t = Pending \<and>
            (\<exists>p \<in> set (dependencies t). \<exists>u \<in> set subtasks'. task_id u = p \<and> status u \<noteq> Completed))"
  proof
    fix t assume t: "t \<in> set subtasks'"
    show "status t = Completed \<or> status t = Failed \<or>
           (status t = Pending \<and>
            (\<exists>p \<in> set (dependencies t). \<exists>u \<in> set subtasks'. task_id u = p \<and> status u \<noteq> Completed))"
    proof (cases "status t = Pending")
      case False
      with g t show ?thesis by (auto simp: good_def)
    next
      case True
      with t have "list_ex (\<lambda>t. status t = Pending) subtasks'" by (auto simp: list_ex_iff)
      with h1 h2 cap have "ready_refs subtasks' = []" by (cases how) simp_all
      from stalled_unmet [OF this t True] obtain p where
        p: "p \<in> set (dependencies t)" "\<not> first_completed subtasks' p" by blast
      from unmet_resolves [OF res t p] p(1) True show ?thesis by blast
    qed
  qed
  show "(\<exists>t \<in> set subtasks'. status t = Failed) \<or> (\<forall>t \<in> set subtasks'. status t = Completed)"
  proof (cases how)
    case All_dispatched
    with h1 have "\<forall>t \<in> set subtasks'. status t \<noteq> Pending" by (simp add: list_ex_iff)
    with g show ?thesis by (auto simp: good_def)
  next
    case Cap_reached
    with cap show ?thesis by simp
  next
    case Stalled
    with h2 stalled_has_failed [OF acy res g] show ?thesis by blast
  qed
qed

text \<open>
  Claim C4, as the code has it. Let decomposition give at most 50 subtasks whose
  dependency graph is acyclic and whose every prerequisite identifier is the identifier
  of a subtask. Then \<^verbatim>\<open>coordinate\<close> returns a result, with a snapshot of every
  subtask in list order, in which
  \<^item> the success flag is true if and only if every subtask is completed;
  \<^item> every subtask is completed or failed, or is still pending and has a prerequisite
    that names a subtask that is not completed;
  \<^item> some subtask has failed or every subtask is completed: when no subtask fails,
    all of them complete.
\<close>

theorem C4_acyclic_run:
  assumes "now env w = (start_time, w0)"
      and "decompose_task env orch complex_task w0 = (Inr subtasks, w1)"
      and "acyclic_deps subtasks" and "resolvable subtasks"
      and "length subtasks \<le> max_iterations"
  shows "\<exists>res orch' w'.
           coordinate env orch complex_task w = (Inr res, orch', w') \<and>
           map td_task_id (res_subtasks res) = map task_id subtasks \<and>
           (success res \<longleftrightarrow> (\<forall>d \<in> set (res_subtasks res). td_status d = Completed)) \<and>
           (\<forall>d \<in> set (res_subtasks res).
               td_status d = Completed \<or> td_status d = Failed \<or>
               (td_status d = Pending \<and>
                (\<exists>p \<in> set (td_dependencies d). \<exists>u \<in> set (res_subtasks res).
                    td_task_id u = p \<and> td_status u \<noteq> Completed))) \<and>
           ((\<exists>d \<in> set (res_subtasks res). td_status d = Failed) \<or>
            (\<forall>d \<in> set (res_subtasks res). td_status d = Completed))"
proof -
  obtain subtasks' w3 batches how where
    loop: "coordinate_loop env orch 0 subtasks (run_world env orch w1) = (subtasks', w3, batches, how)"
    by (cases "coordinate_loop env orch 0 subtasks (run_world env orch w1)")
  from coordinate_result(1) [OF assms(1,2) loop] obtain res orch' w' where
    c: "coordinate env orch complex_task w = (Inr res, orch', w')"
    and rs: "res_subtasks res = map to_dict subtasks'"
    and sc: "success res = (\<forall>t \<in> set subtasks'. status t = Completed)"
    by blast
  note nb = decompose_task_newly_built [OF assms(2)]
  note fs = final_state [OF nb assms(3,4,5) loop]
  have ids: "map task_id subtasks' = map task_id subtasks"
    using coordinate_loop_ids [of env orch 0 subtasks "run_world env orch w1"] loop by simp
  have 1: "map td_task_id (res_subtasks res) = map task_id subtasks"
    unfolding rs ids [symmetric] by (simp add: to_dict_def)
  have 2: "success res \<longleftrightarrow> (\<forall>d \<in> set (res_subtasks res). td_status d = Completed)"
    unfolding rs sc by (simp add: to_dict_def)
  have 3: "\<forall>d \<in> set (res_subtasks res).
               td_status d = Completed \<or> td_status d = Failed \<or>
               (td_status d = Pending \<and>
                (\<exists>p \<in> set (td_dependencies d). \<exists>u \<in> set (res_subtasks res).
                    td_task_id u = p \<and> td_status u \<noteq> Completed))"
    unfolding rs using fs(1) by (simp add: to_dict_def)
  have 4: "(\<exists>d \<in> set (res_subtasks res). td_status d = Failed) \<or>
            (\<forall>d \<in> set (res_subtasks res). td_status d = Completed)"
    unfolding rs using fs(2) by (simp add: to_dict_def)
  from c 1 2 3 4 show ?thesis by blast
qed

text \<open>
  Claim C8, as the code has it. Let decomposition give a list whose subtask at position
  \<open>i\<close> has a prerequisite identifier \<open>p\<close> that no subtask of the list carries.
  Then \<^verbatim>\<open>coordinate\<close> returns a result (it does not raise); position \<open>i\<close> is in
  no ready set of the run; the loop makes at most 50 iterations; the subtask is still
  pending in the result, whose success flag is false; the loop is not left with nothing
  pending, and when the list has at most 50 subtasks it is left by the stall branch.
\<close>

theorem C8_missing_prerequisite:
  assumes "now env w = (start_time, w0)"
      and "decompose_task env orch complex_task w0 = (Inr subtasks, w1)"
      and "i < length subtasks" and "p \<in> set (dependencies (subtasks ! i))"
      and "p \<notin> task_id ` set subtasks"
  shows "\<exists>res orch' w' batches how.
           coordinate env orch complex_task w = (Inr res, orch', w') \<and>
           coordinate_trace env orch complex_task w = Some (batches, how) \<and>
           (\<forall>b \<in> set batches. i \<notin> set b) \<and>
           length batches \<le> max_iterations \<and>
           td_status (res_subtasks res ! i) = Pending \<and>
           \<not> success res \<and>
           how \<noteq> All_dispatched \<and>
           (length subtasks \<le> max_iterations \<longrightarrow> how = Stalled)"
proof -
  obtain subtasks' w3 batches how where
    loop: "coordinate_loop env orch 0 subtasks (run_world env orch w1) = (subtasks', w3, batches, how)"
    by (cases "coordinate_loop env orch 0 subtasks (run_world env orch w1)")
  from coordinate_result [OF assms(1,2) loop] obtain res orch' w' where
    c: "coordinate env orch complex_task w = (Inr res, orch', w')"
    and rs: "res_subtasks res = map to_dict subtasks'"
    and sc: "success res = (\<forall>t \<in> set subtasks'. status t = Completed)"
    and tr: "coordinate_trace env orch complex_task w = Some (batches, how)"
    by blast
  have "newly_built (subtasks ! i)"
    using decompose_task_newly_built [OF assms(2)] assms(3) by simp
  then have "status (subtasks ! i) = Pending" by (simp add: newly_built_fields)
  with assms(3,4,5) have b: "blocked subtasks i" by (auto simp: blocked_def)
  from coordinate_loop_blocked [of subtasks i env orch 0 "run_world env orch w1"] b loop
  have b': "blocked subtasks' i" and nb: "\<forall>b \<in> set batches. i \<notin> set b" by simp_all
  from b' have i': "i < length subtasks'" and pi: "status (subtasks' ! i) = Pending"
    by (simp_all add: blocked_def)
  then have pend: "list_ex (\<lambda>t. status t = Pending) subtasks'"
    using nth_mem by (fastforce simp: list_ex_iff)
  have 4: "length batches \<le> max_iterations"
    using coordinate_loop_within_cap [of 0 env orch subtasks "run_world env orch w1"] loop by simp
  have 5: "td_status (res_subtasks res ! i) = Pending"
    unfolding rs using i' pi by (simp add: to_dict_def)
  have 6: "\<not> success res"
    unfolding sc using i' pi by (metis nth_mem status.distinct(3))
  have 7: "how \<noteq> All_dispatched"
    using coordinate_loop_how [of env orch 0 subtasks "run_world env orch w1"] loop pend by auto
  have 8: "how = Stalled" if "length subtasks \<le> max_iterations"
  proof -
    have "0 + card (pending_refs subtasks) \<le> max_iterations"
      using card_pending_refs [of subtasks] that by simp
    then have "how \<noteq> Cap_reached"
      using coordinate_loop_cap [of 0 subtasks env orch "run_world env orch w1"] loop by simp
    with 7 show ?thesis by (cases how) simp_all
  qed
  from c tr nb 4 5 6 7 8 show ?thesis by blast
qed

lemma research_report_decomposed:
  "decompose_task (demo_env offline) (demo_orch [(''research'', a), (''writing'', b)] False)
     ''research and report'' 0 = (Inr research_report_tasks, 0)"
proof -
  have l: "lower ''research and report'' = ''research and report''"
    by (simp add: lower_def lower_char_def)
  have "fallback_decompose ''research and report'' [''research'', ''writing''] =
          Inr research_report_tasks"
    unfolding fallback_decompose_def l research_report_tasks_def
    by (simp add: research_step_def analyze_step_def write_step_def default_step_def
          pick_agent_def first_agent_def prev_dep_def str_nat_2 AgentTask_def)
  then show ?thesis by (simp add: decompose_task_def demo_orch_def)
qed

lemma research_report_graph:
  "acyclic_deps research_report_tasks" "resolvable research_report_tasks"
proof -
  have "\<forall>t \<in> set research_report_tasks. \<forall>d \<in> set (dependencies t).
          (if d = ''task-1'' then 0 else Suc 0) < (if task_id t = ''task-1'' then 0 else Suc 0)"
    by (simp add: research_report_tasks_def AgentTask_def)
  then show "acyclic_deps research_report_tasks"
    unfolding acyclic_deps_def by (rule exI [of _ "\<lambda>s. if s = ''task-1'' then 0 else Suc 0"])
  show "resolvable research_report_tasks"
    by (simp add: resolvable_def research_report_tasks_def AgentTask_def)
qed

text \<open>
  C4 on the run that the keyword fallback gives for \<^verbatim>\<open>research and report\<close>
  with two agents that return.
\<close>

theorem C4_acyclic_run_witness:
  "acyclic_deps research_report_tasks \<and> resolvable research_report_tasks \<and>
   (\<exists>res orch' w'.
      coordinate (demo_env offline) (demo_orch [(''research'', Succeeds), (''writing'', Succeeds)] False)
        ''research and report'' 0 = (Inr res, orch', w') \<and>
      map td_task_id (res_subtasks res) = [''task-1'', ''task-2''] \<and>
      (success res \<longleftrightarrow> (\<forall>d \<in> set (res_subtasks res). td_status d = Completed)) \<and>
      ((\<exists>d \<in> set (res_subtasks res). td_status d = Failed) \<or>
       (\<forall>d \<in> set (res_subtasks res). td_status d = Completed)))"
proof -
  have n: "now (demo_env offline) 0 = (''T'', 0)" by (simp add: demo_env_def)
  have len: "length research_report_tasks \<le> max_iterations"
    by (simp add: research_report_tasks_def max_iterations_def)
  have ids: "map task_id research_report_tasks = [''task-1'', ''task-2'']"
    by (simp add: research_report_tasks_def AgentTask_def)
  from C4_acyclic_run [OF n research_report_decomposed research_report_graph len, of Succeeds Succeeds]
  obtain res orch' w' where
    "coordinate (demo_env offline) (demo_orch [(''research'', Succeeds), (''writing'', Succeeds)] False)
        ''research and report'' 0 = (Inr res, orch', w')"
    "map td_task_id (res_subtasks res) = [''task-1'', ''task-2'']"
    "success res \<longleftrightarrow> (\<forall>d \<in> set (res_subtasks res). td_status d = Completed)"
    "(\<exists>d \<in> set (res_subtasks res). td_status d = Failed) \<or>
       (\<forall>d \<in> set (res_subtasks res). td_status d = Completed)"
    unfolding ids by (elim exE conjE)
  then show ?thesis by (intro conjI exI research_report_graph)
qed

text \<open>
  Claim C4 as stated fails when a prerequisite fails. The two subtasks form an acyclic
  graph with every prerequisite resolvable, the agent for \<^verbatim>\<open>research\<close> always
  raises: \<^verbatim>\<open>task-1\<close> ends failed after its retries, \<^verbatim>\<open>task-2\<close> is never
  ready, the run stalls, and the result reports \<^verbatim>\<open>task-2\<close> as pending, which is
  no terminal state.
\<close>

theorem C4_failed_prerequisite_counterexample:
  "fst (decompose_task (demo_env offline)
          (demo_orch [(''research'', Always_fails), (''writing'', Succeeds)] False)
          ''research and report'' 0) = Inr research_report_tasks \<and>
   acyclic_deps research_report_tasks \<and> resolvable research_report_tasks \<and>
   run_statuses (coordinate (demo_env offline)
          (demo_orch [(''research'', Always_fails), (''writing'', Succeeds)] False)
          ''research and report'' 0) = Some [Failed, Pending] \<and>
   run_success (coordinate (demo_env offline)
          (demo_orch [(''research'', Always_fails), (''writing'', Succeeds)] False)
          ''research and report'' 0) = Some False"
proof -
  let ?orch = "demo_orch [(''research'', Always_fails), (''writing'', Succeeds)] False"
  have "run_statuses (coordinate (demo_env offline) ?orch ''research and report'' 0)
          = Some [Failed, Pending]"
    by code_simp
  moreover have "run_success (coordinate (demo_env offline) ?orch ''research and report'' 0)
          = Some False"
    by code_simp
  ultimately show ?thesis
    by (simp add: research_report_decomposed research_report_graph)
qed

lemma ghost_decomposed:
  "decompose_task (demo_env (Llm_json ghost_doc)) (demo_orch registry True) task 0
     = (Inr ghost_tasks, 0)"
  by (simp add: decompose_task_def decompose_def demo_env_def demo_orch_def ghost_doc_def
        ghost_tasks_def)

text \<open>
  C8 on the reply with the prerequisite \<^verbatim>\<open>task-0\<close> that does not exist: the run
  of two subtasks is left by the stall branch.
\<close>

theorem C8_missing_prerequisite_witness:
  "\<exists>res orch' w' batches.
      coordinate (demo_env (Llm_json ghost_doc)) (demo_orch [(''general'', Succeeds)] True)
        ''Summarise the quarterly figures'' 0 = (Inr res, orch', w') \<and>
      coordinate_trace (demo_env (Llm_json ghost_doc)) (demo_orch [(''general'', Succeeds)] True)
        ''Summarise the quarterly figures'' 0 = Some (batches, Stalled) \<and>
      (\<forall>b \<in> set batches. 1 \<notin> set b) \<and>
      td_status (res_subtasks res ! 1) = Pending \<and>
      \<not> success res"
proof -
  let ?env = "demo_env (Llm_json ghost_doc)" and ?orch = "demo_orch [(''general'', Succeeds)] True"
  have n: "now ?env 0 = (''T'', 0)" by (simp add: demo_env_def)
  have i: "1 < length ghost_tasks" by (simp add: ghost_tasks_def)
  have p: "''task-0'' \<in> set (dependencies (ghost_tasks ! 1))"
    by (simp add: ghost_tasks_def AgentTask_def)
  have m: "''task-0'' \<notin> task_id ` set ghost_tasks"
    by (simp add: ghost_tasks_def AgentTask_def)
  have len: "length ghost_tasks \<le> max_iterations"
    by (simp add: ghost_tasks_def max_iterations_def)
  note d = ghost_decomposed [of "[(''general'', Succeeds)]" "''Summarise the quarterly figures''"]
  from C8_missing_prerequisite [OF n d i p m] obtain res orch' w' batches how where
    "coordinate ?env ?orch ''Summarise the quarterly figures'' 0 = (Inr res, orch', w')"
    "coordinate_trace ?env ?orch ''Summarise the quarterly figures'' 0 = Some (batches, how)"
    "\<forall>b \<in> set batches. 1 \<notin> set b"
    "td_status (res_subtasks res ! 1) = Pending"
    "\<not> success res"
    "length ghost_tasks \<le> max_iterations \<longrightarrow> how = Stalled"
    by (elim exE conjE)
  with len show ?thesis by (intro exI [of _ res] exI [of _ orch'] exI [of _ w'] exI [of _ batches]) simp
qed

subsection \<open>A run that the iteration cap ends\<close>

lemma step_id_inj: "step_id i = step_id j \<longleftrightarrow> i = j"
proof
  assume "step_id i = step_id j"
  then have "length (step_id i) = length (step_id j)" by simp
  then show "i = j" by (simp add: step_id_def)
qed simp

lemma step_id_other: "step_id j \<noteq> ''missing''" "step_id j \<noteq> ''last''"
  by (simp_all add: step_id_def)

lemma tasks_of_chain_items:
  "tasks_of_items (map chain_item ks @ [last_item]) = Inr (map chain_task ks @ [last_task])"
  by (induction ks) (simp_all add: chain_item_def last_item_def chain_task_def last_task_def)

lemma long_chain_decomposed:
  "decompose_task (demo_env (Llm_json long_chain_doc)) (demo_orch registry True) task 0
     = (Inr long_chain_tasks, 0)"
  by (simp add: decompose_task_def decompose_def demo_env_def demo_orch_def long_chain_doc_def
        long_chain_tasks_def tasks_of_chain_items)

lemma long_chain_nth:
  "j < 50 \<Longrightarrow> long_chain_tasks ! j = chain_task j" "long_chain_tasks ! 50 = last_task"
  by (simp_all add: long_chain_tasks_def nth_append)

lemma chain_at_start: "chain_at 0 long_chain_tasks"
  unfolding chain_at_def
proof (intro conjI allI impI)
  show "length long_chain_tasks = 51" by (simp add: long_chain_tasks_def)
next
  fix j :: nat assume "j < 50"
  then have "long_chain_tasks ! j = chain_task j" by (rule long_chain_nth)
  then show "task_id (long_chain_tasks ! j) = step_id j"
    and "dependencies (long_chain_tasks ! j) = step_deps j"
    and "if j < 0 then status (long_chain_tasks ! j) = Completed
          else status (long_chain_tasks ! j) = Pending \<and> agent_type (long_chain_tasks ! j) = ''general'' \<and>
               retry_count (long_chain_tasks ! j) \<le> max_retries (long_chain_tasks ! j)"
    by (simp_all add: chain_task_def AgentTask_def)
next
  show "task_id (long_chain_tasks ! 50) = ''last''"
    and "dependencies (long_chain_tasks ! 50) = [''missing'']"
    and "status (long_chain_tasks ! 50) = Pending"
    by (simp_all add: long_chain_nth last_task_def AgentTask_def)
qed

lemma chain_find_step:
  assumes "chain_at k tasks" and "j < 50"
  shows "find (\<lambda>t. task_id t = step_id j) tasks = Some (tasks ! j)"
proof -
  from assms have "j < length tasks" "task_id (tasks ! j) = step_id j"
    by (simp_all add: chain_at_def)
  moreover have "task_id (tasks ! i) \<noteq> step_id j" if "i < j" for i
    using assms that by (simp add: chain_at_def step_id_inj)
  ultimately show ?thesis by (auto simp: find_Some_iff)
qed

lemma chain_missing:
  assumes "chain_at k tasks"
  shows "''missing'' \<notin> task_id ` set tasks"
proof
  assume "''missing'' \<in> task_id ` set tasks"
  then obtain i where i: "i < length tasks" "task_id (tasks ! i) = ''missing''"
    by (auto simp: in_set_conv_nth)
  show False
  proof (cases "i < 50")
    case True
    with assms i show False by (simp add: chain_at_def step_id_other)
  next
    case False
    with assms i have "i = 50" by (simp add: chain_at_def)
    with assms i show False by (simp add: chain_at_def)
  qed
qed

lemma filter_eq_upt: "k < n \<Longrightarrow> filter (\<lambda>i. i = k) [0..<n] = [k]"
proof (induction n)
  case 0
  then show ?case by simp
next
  case (Suc n)
  show ?case
  proof (cases "k = n")
    case True
    have "filter (\<lambda>i. i = n) [0..<n] = []" by (simp add: filter_empty_conv)
    with True show ?thesis by simp
  next
    case False
    with Suc show ?thesis by simp
  qed
qed

lemma chain_ready:
  assumes c: "chain_at k tasks" and k: "k < 50"
  shows "ready_refs tasks = [k]"
proof -
  have "is_ready tasks (tasks ! i) \<longleftrightarrow> i = k" if i: "i < 51" for i
  proof (cases "i < 50")
    case False
    with i have i50: "i = 50" by simp
    from chain_missing [OF c] have "\<not> first_completed tasks ''missing''"
      by (rule first_completed_missing)
    with c i50 k show ?thesis by (simp add: is_ready_def chain_at_def)
  next
    case True
    from c True have st: "if i < k then status (tasks ! i) = Completed else status (tasks ! i) = Pending"
      and d: "dependencies (tasks ! i) = step_deps i"
      by (auto simp: chain_at_def)
    show ?thesis
    proof (cases "i < k")
      case True
      with st show ?thesis by (simp add: is_ready_def)
    next
      case False
      with st have p: "status (tasks ! i) = Pending" by simp
      show ?thesis
      proof (cases "i = 0")
        case True
        with p d False show ?thesis by (simp add: is_ready_def step_deps_def)
      next
        case nz: False
        with True have "i - 1 < 50" by simp
        from chain_find_step [OF c this]
        have fc: "first_completed tasks (step_id (i - 1)) \<longleftrightarrow> status (tasks ! (i - 1)) = Completed"
          by (simp add: first_completed_def)
        from c \<open>i - 1 < 50\<close>
        have "if i - 1 < k then status (tasks ! (i - 1)) = Completed
              else status (tasks ! (i - 1)) = Pending"
          by (auto simp: chain_at_def)
        with fc have "first_completed tasks (step_id (i - 1)) \<longleftrightarrow> i - 1 < k"
          by (auto split: if_splits)
        with p d nz False show ?thesis by (auto simp: is_ready_def step_deps_def)
      qed
    qed
  qed
  then have "filter (\<lambda>i. is_ready tasks (tasks ! i)) [0..<51] = filter (\<lambda>i. i = k) [0..<51]"
    by (intro filter_cong) simp_all
  with c k show ?thesis by (simp add: ready_refs_def chain_at_def filter_eq_upt)
qed

lemma execute_task_succeeds:
  assumes "map_of (agents orch) (agent_type task) = Some Succeeds"
      and "retry_count task \<le> max_retries task"
  shows "status (fst (execute_task (demo_env reply) orch task w)) = Completed"
proof -
  have n: "now (demo_env reply) w = (''T'', w)" by (simp add: demo_env_def)
  have tr: "agent_true (demo_env reply) Succeeds w" by (simp add: demo_env_def demo_true_def)
  let ?t1 = "task\<lparr>status := Running, started_at := Some ''T'',
                   assigned_agent := Some (agent_type task)\<rparr>"
  have r: "int 0 \<le> max_retries ?t1 - retry_count ?t1" using assms(2) by simp
  have e: "\<not> raises_at (demo_env reply) Succeeds (description ?t1) w 0"
    by (simp add: raises_at_def demo_env_def demo_execute_def)
  have sk: "memory orch \<longrightarrow> sink_accepts (demo_env reply)" by (simp add: demo_env_clean)
  from retry_loop_then_success [where task = ?t1 and w = w and agent = Succeeds,
      OF demo_env_clean(1) sk, rule_format, where j = 0] r e
  have "status (fst (retry_loop (demo_env reply) orch Succeeds ?t1 w)) = Completed"
    by simp
  then show ?thesis
    unfolding execute_task_registered [OF assms(1) tr n] by simp
qed

lemma chain_step:
  assumes c: "chain_at k tasks" and k: "k < 50"
      and g: "gather (demo_env reply) (demo_orch [(''general'', Succeeds)] True) [k] tasks w = (tasks2, w2)"
  shows "chain_at (Suc k) tasks2"
proof -
  let ?env = "demo_env reply" and ?orch = "demo_orch [(''general'', Succeeds)] True"
  let ?t = "fst (execute_task ?env ?orch (tasks ! k) w)"
  from g have t2: "tasks2 = tasks[k := ?t]" by (simp split: prod.splits)
  from c k have tk: "agent_type (tasks ! k) = ''general''"
    "retry_count (tasks ! k) \<le> max_retries (tasks ! k)"
    by (simp_all add: chain_at_def)
  then have "map_of (agents ?orch) (agent_type (tasks ! k)) = Some Succeeds"
    by (simp add: demo_orch_def)
  from execute_task_succeeds [OF this tk(2)] have ok: "status ?t = Completed" .
  note fr = execute_task_frame [of ?env ?orch "tasks ! k" w]
  from c have len: "length tasks = 51" by (simp add: chain_at_def)
  show ?thesis
    unfolding chain_at_def t2
  proof (intro conjI allI impI)
    show "length (tasks[k := ?t]) = 51" using len by simp
  next
    fix j :: nat assume j: "j < 50"
    show "task_id (tasks[k := ?t] ! j) = step_id j"
      and "dependencies (tasks[k := ?t] ! j) = step_deps j"
      using c j k len fr by (auto simp: chain_at_def nth_list_update)
    show "if j < Suc k then status (tasks[k := ?t] ! j) = Completed
          else status (tasks[k := ?t] ! j) = Pending \<and>
               agent_type (tasks[k := ?t] ! j) = ''general'' \<and>
               retry_count (tasks[k := ?t] ! j) \<le> max_retries (tasks[k := ?t] ! j)"
    proof (cases "j = k")
      case True
      with ok len k show ?thesis by simp
    next
      case False
      with c j show ?thesis by (auto simp: chain_at_def)
    qed
  next
    show "task_id (tasks[k := ?t] ! 50) = ''last''"
      and "dependencies (tasks[k := ?t] ! 50) = [''missing'']"
      and "status (tasks[k := ?t] ! 50) = Pending"
      using c k by (simp_all add: chain_at_def)
  qed
qed

lemma chain_loop:
  "chain_at k tasks \<Longrightarrow> k \<le> 50 \<Longrightarrow>
   snd (snd (snd (coordinate_loop (demo_env reply) (demo_orch [(''general'', Succeeds)] True)
                    k tasks w))) = Cap_reached"
proof (induction "50 - k" arbitrary: k tasks w)
  case 0
  then have k: "k = 50" by simp
  from "0.prems"(1) have "status (tasks ! 50) = Pending" "50 < length tasks"
    by (simp_all add: chain_at_def)
  then have p: "list_ex (\<lambda>t. status t = Pending) tasks"
    using nth_mem by (fastforce simp: list_ex_iff)
  have "\<not> (list_ex (\<lambda>t. status t = Pending) tasks \<and> k < max_iterations)"
    using k by (simp add: max_iterations_def)
  from coordinate_loop_left [OF this, where env = "demo_env reply"
         and orch = "demo_orch [(''general'', Succeeds)] True" and w = w] p
  show ?case by simp
next
  case (Suc n)
  let ?env = "demo_env reply" and ?orch = "demo_orch [(''general'', Succeeds)] True"
  from Suc.hyps(2) have k: "k < 50" by simp
  then have km: "k < max_iterations" by (simp add: max_iterations_def)
  from Suc.prems(1) have "status (tasks ! 50) = Pending" "50 < length tasks"
    by (simp_all add: chain_at_def)
  then have p: "list_ex (\<lambda>t. status t = Pending) tasks"
    using nth_mem by (fastforce simp: list_ex_iff)
  note rd = chain_ready [OF Suc.prems(1) k]
  then have ne: "ready_refs tasks \<noteq> []" by simp
  obtain tasks2 w2 where g: "gather ?env ?orch (ready_refs tasks) tasks w = (tasks2, w2)"
    by (cases "gather ?env ?orch (ready_refs tasks) tasks w")
  obtain tasks3 w3 batches how where
    r: "coordinate_loop ?env ?orch (k + 1) tasks2 w2 = (tasks3, w3, batches, how)"
    by (cases "coordinate_loop ?env ?orch (k + 1) tasks2 w2")
  from Suc.hyps(2) have "n = 50 - Suc k" by simp
  moreover from g rd have "chain_at (Suc k) tasks2"
    using chain_step [OF Suc.prems(1) k] by simp
  moreover from k have "Suc k \<le> 50" by simp
  ultimately have "snd (snd (snd (coordinate_loop ?env ?orch (Suc k) tasks2 w2))) = Cap_reached"
    by (rule Suc.hyps(1))
  with r have "how = Cap_reached" by simp
  with coordinate_loop_batch [OF p km ne g r] show ?case by simp
qed

text \<open>
  Claim C8 as stated fails on a long run. The reply of 51 subtasks holds a subtask
  whose prerequisite \<^verbatim>\<open>missing\<close> matches no subtask. Each of the 50 iterations
  that the cap allows finds one step of the chain ready and completes it, so the loop
  is left by its test at the cap: the stall branch is never taken.
\<close>

theorem C8_long_run_counterexample:
  "fst (decompose_task (demo_env (Llm_json long_chain_doc))
          (demo_orch [(''general'', Succeeds)] True) ''a long chain'' 0) = Inr long_chain_tasks \<and>
   dependencies (long_chain_tasks ! 50) = [''missing''] \<and>
   ''missing'' \<notin> task_id ` set long_chain_tasks \<and>
   map_option snd (coordinate_trace (demo_env (Llm_json long_chain_doc))
          (demo_orch [(''general'', Succeeds)] True) ''a long chain'' 0) = Some Cap_reached"
proof -
  let ?env = "demo_env (Llm_json long_chain_doc)" and ?orch = "demo_orch [(''general'', Succeeds)] True"
  have n: "now ?env 0 = (''T'', 0)" by (simp add: demo_env_def)
  obtain tasks' w3 batches how where
    loop: "coordinate_loop ?env ?orch 0 long_chain_tasks (run_world ?env ?orch 0)
             = (tasks', w3, batches, how)"
    by (cases "coordinate_loop ?env ?orch 0 long_chain_tasks (run_world ?env ?orch 0)")
  from chain_loop [OF chain_at_start, of "Llm_json long_chain_doc" "run_world ?env ?orch 0"] loop
  have "how = Cap_reached" by simp
  with coordinate_result(2) [OF n long_chain_decomposed loop]
  have "map_option snd (coordinate_trace ?env ?orch ''a long chain'' 0) = Some Cap_reached"
    by simp
  moreover have "dependencies (long_chain_tasks ! 50) = [''missing'']"
    by (simp add: long_chain_nth last_task_def AgentTask_def)
  ultimately show ?thesis
    using chain_missing [OF chain_at_start] by (simp add: long_chain_decomposed)
qed

subsection \<open>Whether coordinate returns a result\<close>

text \<open>
  With at least one agent registered, decomposition never raises, and
  \<^verbatim>\<open>coordinate\<close> returns a result whatever the agents and the language model do.
\<close>

lemma decompose_task_nonempty:
  assumes "agents orch \<noteq> []"
  shows "\<exists>subtasks w1. decompose_task env orch task w = (Inr subtasks, w1)"
proof -
  from assms have "map fst (agents orch) \<noteq> []" by simp
  from fallback_decompose_nonempty [OF this] obtain subtasks where
    f: "fallback_decompose task (map fst (agents orch)) = Inr subtasks" by blast
  show ?thesis
    by (auto simp: decompose_task_def Let_def f split: prod.splits sum.splits)
qed

lemma coordinate_returns_with_agents:
  assumes "agents orch \<noteq> []"
  shows "\<exists>res orch' w'. coordinate env orch complex_task w = (Inr res, orch', w')"
proof -
  obtain start_time w0 where n: "now env w = (start_time, w0)" by (cases "now env w")
  from decompose_task_nonempty [OF assms, of env complex_task w0] obtain subtasks w1 where
    d: "decompose_task env orch complex_task w0 = (Inr subtasks, w1)" by blast
  obtain subtasks' w3 batches how where
    loop: "coordinate_loop env orch 0 subtasks (run_world env orch w1) = (subtasks', w3, batches, how)"
    by (cases "coordinate_loop env orch 0 subtasks (run_world env orch w1)")
  from coordinate_result(1) [OF n d loop] show ?thesis by blast
qed

text \<open>
  Claim C1 fails on the code. With no agent registered and a task text that contains
  one of the markers, the keyword fallback evaluates \<^verbatim>\<open>agents[0]\<close> on the empty
  list; the \<^verbatim>\<open>IndexError\<close> is caught nowhere and \<^verbatim>\<open>coordinate\<close> raises it to
  its caller, leaving the history as it was. The last branch of the fallback, and the
  decomposer's own fallback, guard the empty list with \<^verbatim>\<open>"general"\<close>; the three
  marker branches do not.
\<close>

theorem C1_empty_registry_raises:
  "coordinate (demo_env offline) (demo_orch [] False) ''Research AI trends'' 0 =
     (Inl IndexError, demo_orch [] False, 0)"
proof -
  have l: "lower ''Research AI trends'' = ''research ai trends''"
    by (simp add: lower_def lower_char_def)
  have "fallback_decompose ''Research AI trends'' [] = Inl IndexError"
    unfolding fallback_decompose_def l
    by (simp add: research_step_def pick_agent_def first_agent_def)
  then show ?thesis
    by (simp add: coordinate_def decompose_task_def demo_env_def demo_orch_def)
qed

end
